theory Spec2Isabelle
  imports Main "HOL-Library.Word"
begin

section \<open>Exceptions\<close>

text \<open>
  Every \<^verbatim>\<open>raise\<close> of \<^verbatim>\<open>matrix.py\<close>, and every exception that the Python
  and NumPy operations it calls raise, is a value. A \<^verbatim>\<open>ValueError\<close> carries the
  place that raised it, since the class raises it for several reasons.
\<close>

datatype value_error =
    ShapeMismatch      \<comment> \<open>"Matrix has shape ..., but ... is required"\<close>
  | ScoreTooLarge      \<comment> \<open>"Score values are too large. ..."\<close>
  | Inhomogeneous      \<comment> \<open>\<^verbatim>\<open>np.array\<close> of rows of different lengths\<close>
  | InvalidLiteral     \<comment> \<open>\<^verbatim>\<open>int()\<close> of a string that is no integer literal\<close>
  | CannotReshape      \<comment> \<open>\<^verbatim>\<open>reshape\<close> to a shape of another size\<close>

datatype type_error =
    NotIntegerArray    \<comment> \<open>"Score matrix must be an integer ndarray"\<close>
  | NotDictArrayStr    \<comment> \<open>"Matrix must be either a dictionary, an 2-D ndarray or a string"\<close>

datatype error =
    ValueError value_error
  | TypeError type_error
  | KeyError
  | IndexError
  | OverflowError
  | AlphabetError
  | FileNotFoundError

section \<open>Two-dimensional arrays\<close>

text \<open>
  A 2-D \<^verbatim>\<open>ndarray\<close>: its shape and its rows. The shape is a field of its own,
  since an array of shape \<open>(0, n)\<close> has no row to read \<open>n\<close> from.
\<close>

record 'a ndarray =
  nrows :: nat
  ncols :: nat
  rows :: "'a list list"

definition shape :: "'a ndarray \<Rightarrow> nat \<times> nat" where
  "shape a = (nrows a, ncols a)"

definition wf_ndarray :: "'a ndarray \<Rightarrow> bool" where
  "wf_ndarray a = (length (rows a) = nrows a \<and> list_all (\<lambda>r. length r = ncols a) (rows a))"

definition item :: "'a ndarray \<Rightarrow> nat \<Rightarrow> nat \<Rightarrow> 'a" where
  "item a i j = rows a ! i ! j"

definition map_ndarray :: "('a \<Rightarrow> 'b) \<Rightarrow> 'a ndarray \<Rightarrow> 'b ndarray" where
  "map_ndarray f a = \<lparr>nrows = nrows a, ncols = ncols a, rows = map (map f) (rows a)\<rparr>"

text \<open>\<^verbatim>\<open>np.zeros((m, n), dtype=np.int32)\<close>\<close>

definition np_zeros :: "nat \<Rightarrow> nat \<Rightarrow> 32 word ndarray" where
  "np_zeros m n = \<lparr>nrows = m, ncols = n, rows = replicate m (replicate n 0)\<rparr>"

text \<open>\<^verbatim>\<open>np.transpose(a)\<close> of a 2-D array.\<close>

definition np_transpose :: "'a ndarray \<Rightarrow> 'a ndarray" where
  "np_transpose a =
     \<lparr>nrows = ncols a, ncols = nrows a,
      rows = map (\<lambda>j. map (\<lambda>i. item a i j) [0..<nrows a]) [0..<ncols a]\<rparr>"

text \<open>\<^verbatim>\<open>np.array_equal(a, b)\<close>: the same shape and the same elements.\<close>

definition np_array_equal :: "'a ndarray \<Rightarrow> 'a ndarray \<Rightarrow> bool" where
  "np_array_equal a b =
     (shape a = shape b \<and>
      list_all (\<lambda>i. list_all (\<lambda>j. item a i j = item b i j) [0..<ncols a]) [0..<nrows a])"

text \<open>\<^verbatim>\<open>np.any(a == v)\<close>\<close>

definition np_any_eq :: "'a ndarray \<Rightarrow> 'a \<Rightarrow> bool" where
  "np_any_eq a v = list_ex (list_ex (\<lambda>x. x = v)) (rows a)"

text \<open>
  An index into an axis of length \<open>n\<close>, as NumPy (and Python) read it: a negative
  index counts from the end, and an index outside \<open>[-n, n)\<close> raises \<^verbatim>\<open>IndexError\<close>.
\<close>

definition norm_index :: "nat \<Rightarrow> int \<Rightarrow> error + nat" where
  "norm_index n i =
     (let k = (if i < 0 then int n + i else i)
      in if 0 \<le> k \<and> k < int n then Inr (nat k) else Inl IndexError)"

text \<open>\<^verbatim>\<open>a[i, j]\<close> for two integers.\<close>

definition getitem :: "'a ndarray \<Rightarrow> int \<Rightarrow> int \<Rightarrow> error + 'a" where
  "getitem a i j =
     (case norm_index (nrows a) i of
        Inl e \<Rightarrow> Inl e
      | Inr r \<Rightarrow>
          (case norm_index (ncols a) j of
             Inl e \<Rightarrow> Inl e
           | Inr c \<Rightarrow> Inr (item a r c)))"

text \<open>\<^verbatim>\<open>a[i, j] = w\<close> for two indices in range (the loops that use it run over the shape).\<close>

definition setitem :: "'a ndarray \<Rightarrow> nat \<Rightarrow> nat \<Rightarrow> 'a \<Rightarrow> 'a ndarray" where
  "setitem a i j w = a\<lparr>rows := (rows a)[i := (rows a ! i)[j := w]]\<rparr>"

section \<open>32-bit scores\<close>

definition INT32_MAX :: "32 word" where
  "INT32_MAX = 2147483647"

definition INT32_MIN :: "32 word" where
  "INT32_MIN = 2147483648"

text \<open>
  \<^verbatim>\<open>score_matrix.astype(np.int32)\<close> of an integer array: a C cast, which keeps the low
  32 bits of every element.
\<close>

definition astype_int32 :: "int ndarray \<Rightarrow> 32 word ndarray" where
  "astype_int32 a = map_ndarray word_of_int a"

text \<open>
  Storing a Python \<^verbatim>\<open>int\<close> into an element of an \<^verbatim>\<open>int32\<close> array: NumPy raises
  \<^verbatim>\<open>OverflowError\<close> for an integer outside the 32-bit range, and stores every integer
  of the range.
\<close>

definition int32_of_pyint :: "int \<Rightarrow> error + 32 word" where
  "int32_of_pyint v =
     (if - 2147483648 \<le> v \<and> v \<le> 2147483647 then Inr (word_of_int v) else Inl OverflowError)"

section \<open>Alphabets\<close>

text \<open>
  Modelled from the spec: the \<^verbatim>\<open>Alphabet\<close> class is not part of \<^verbatim>\<open>matrix.py\<close>. It is
  an ordered sequence of symbols; \<open>encode\<close> gives the index of a symbol and fails with
  \<open>UnknownSymbol\<close> (\<^verbatim>\<open>AlphabetError\<close>) for a symbol that is absent, \<open>decode\<close> gives
  the symbol at an index, the length is the number of symbols, and two alphabets are
  equal when their symbol sequences are.
\<close>

type_synonym 'a alphabet = "'a list"

fun encode :: "'a alphabet \<Rightarrow> 'a \<Rightarrow> error + nat" where
  "encode [] s = Inl AlphabetError"
| "encode (x # xs) s =
     (if x = s then Inr 0
      else (case encode xs s of Inl e \<Rightarrow> Inl e | Inr k \<Rightarrow> Inr (Suc k)))"

definition decode :: "'a alphabet \<Rightarrow> nat \<Rightarrow> error + 'a" where
  "decode alph code = (if code < length alph then Inr (alph ! code) else Inl AlphabetError)"

section \<open>The substitution matrix\<close>

record ('a, 'b) SubstitutionMatrix =
  alph1 :: "'a alphabet"
  alph2 :: "'b alphabet"
  matrix :: "32 word ndarray"

text \<open>
  The third argument of the constructor, by the type that \<^verbatim>\<open>isinstance\<close> finds: a
  dictionary from symbol pairs to Python integers, an \<^verbatim>\<open>ndarray\<close> of an integer dtype
  (its elements as integers), an \<^verbatim>\<open>ndarray\<close> of another dtype (only its shape is read
  before the constructor raises), or anything else. The branch for a string is
  \<open>init_from_db\<close> below.
\<close>

datatype ('a, 'b) score_matrix_arg =
    Dict "'a \<times> 'b \<Rightarrow> int option"
  | IntArray "int ndarray"
  | OtherArray "nat \<times> nat"
  | Other

text \<open>
  \<^verbatim>\<open>_fill_with_matrix_dict\<close>: the two nested loops, as one loop over the index pairs in
  the order the loops visit them, on the array that starts as zeros.
\<close>

fun fill_loop ::
  "'a alphabet \<Rightarrow> 'b alphabet \<Rightarrow> ('a \<times> 'b \<Rightarrow> int option) \<Rightarrow> (nat \<times> nat) list \<Rightarrow>
   32 word ndarray \<Rightarrow> error + 32 word ndarray" where
  "fill_loop a1 a2 matrix_dict [] m = Inr m"
| "fill_loop a1 a2 matrix_dict ((i, j) # ps) m =
     (case decode a1 i of
        Inl e \<Rightarrow> Inl e
      | Inr sym1 \<Rightarrow>
          (case decode a2 j of
             Inl e \<Rightarrow> Inl e
           | Inr sym2 \<Rightarrow>
               (case matrix_dict (sym1, sym2) of
                  None \<Rightarrow> Inl KeyError
                | Some v \<Rightarrow>
                    (case int32_of_pyint v of
                       Inl e \<Rightarrow> Inl e
                     | Inr w \<Rightarrow> fill_loop a1 a2 matrix_dict ps (setitem m i j w)))))"

definition fill_with_matrix_dict ::
  "'a alphabet \<Rightarrow> 'b alphabet \<Rightarrow> ('a \<times> 'b \<Rightarrow> int option) \<Rightarrow> error + 32 word ndarray" where
  "fill_with_matrix_dict a1 a2 matrix_dict =
     fill_loop a1 a2 matrix_dict
       (List.product [0..<length a1] [0..<length a2])
       (np_zeros (length a1) (length a2))"

text \<open>\<^verbatim>\<open>SubstitutionMatrix.__init__\<close>\<close>

definition init ::
  "'a alphabet \<Rightarrow> 'b alphabet \<Rightarrow> ('a, 'b) score_matrix_arg \<Rightarrow>
   error + ('a, 'b) SubstitutionMatrix" where
  "init alphabet1 alphabet2 score_matrix =
     (case score_matrix of
        Dict d \<Rightarrow>
          (case fill_with_matrix_dict alphabet1 alphabet2 d of
             Inl e \<Rightarrow> Inl e
           | Inr m \<Rightarrow> Inr \<lparr>alph1 = alphabet1, alph2 = alphabet2, matrix = m\<rparr>)
      | IntArray a \<Rightarrow>
          (if shape a \<noteq> (length alphabet1, length alphabet2) then Inl (ValueError ShapeMismatch)
           else
             (let m = astype_int32 a
              in if np_any_eq m INT32_MAX \<or> np_any_eq m INT32_MIN
                 then Inl (ValueError ScoreTooLarge)
                 else Inr \<lparr>alph1 = alphabet1, alph2 = alphabet2, matrix = m\<rparr>))
      | OtherArray s \<Rightarrow>
          (if s \<noteq> (length alphabet1, length alphabet2) then Inl (ValueError ShapeMismatch)
           else Inl (TypeError NotIntegerArray))
      | Other \<Rightarrow> Inl (TypeError NotDictArrayStr))"

text \<open>
  An \<^verbatim>\<open>int32\<close> array handed back to the constructor (by \<^verbatim>\<open>transpose\<close> and
  \<^verbatim>\<open>as_positional\<close>) is an integer array whose elements are the signed values.
\<close>

definition as_int_array :: "32 word ndarray \<Rightarrow> ('a, 'b) score_matrix_arg" where
  "as_int_array m = IntArray (map_ndarray sint m)"

definition transpose_sm :: "('a, 'b) SubstitutionMatrix \<Rightarrow> error + ('b, 'a) SubstitutionMatrix" where
  "transpose_sm self =
     (let new_alph1 = alph2 self;
          new_alph2 = alph1 self;
          new_matrix = np_transpose (matrix self)
      in init new_alph1 new_alph2 (as_int_array new_matrix))"

definition is_symmetric :: "('a, 'a) SubstitutionMatrix \<Rightarrow> bool" where
  "is_symmetric self =
     (alph1 self = alph2 self \<and> np_array_equal (matrix self) (np_transpose (matrix self)))"

definition get_score_by_code :: "('a, 'b) SubstitutionMatrix \<Rightarrow> int \<Rightarrow> int \<Rightarrow> error + 32 word" where
  "get_score_by_code self code1 code2 = getitem (matrix self) code1 code2"

definition get_score :: "('a, 'b) SubstitutionMatrix \<Rightarrow> 'a \<Rightarrow> 'b \<Rightarrow> error + 32 word" where
  "get_score self symbol1 symbol2 =
     (case encode (alph1 self) symbol1 of
        Inl e \<Rightarrow> Inl e
      | Inr code1 \<Rightarrow>
          (case encode (alph2 self) symbol2 of
             Inl e \<Rightarrow> Inl e
           | Inr code2 \<Rightarrow> getitem (matrix self) (int code1) (int code2)))"

text \<open>
  What the data model asks of a matrix: the table has the shape of the two alphabets,
  and the alphabets have no symbol twice.
\<close>

definition wf_matrix :: "('a, 'b) SubstitutionMatrix \<Rightarrow> bool" where
  "wf_matrix self =
     (wf_ndarray (matrix self) \<and>
      shape (matrix self) = (length (alph1 self), length (alph2 self)) \<and>
      distinct (alph1 self) \<and> distinct (alph2 self))"

section \<open>The positional transformation\<close>

text \<open>
  Modelled from the spec: the \<^verbatim>\<open>Sequence\<close> and \<^verbatim>\<open>PositionalSequence\<close> classes are not
  part of \<^verbatim>\<open>matrix.py\<close>. A sequence has an alphabet and an array of symbol codes; its
  length is the length of that array, and its symbol at a position is the decoded
  code. The positional sequence of a sequence of length \<open>n\<close> has the positions
  \<open>0, ..., n - 1\<close> as the symbols of its alphabet and as its codes.
\<close>

record 'a sequence =
  alphabet :: "'a alphabet"
  code :: "nat list"

definition len :: "'a sequence \<Rightarrow> nat" where
  "len s = length (code s)"

definition symbol_at :: "'a sequence \<Rightarrow> nat \<Rightarrow> error + 'a" where
  "symbol_at s p = (if p < len s then decode (alphabet s) (code s ! p) else Inl IndexError)"

definition PositionalSequence :: "'a sequence \<Rightarrow> nat sequence" where
  "PositionalSequence s = \<lparr>alphabet = [0..<len s], code = [0..<len s]\<rparr>"

text \<open>\<^verbatim>\<open>np.repeat(a, k)\<close> and \<^verbatim>\<open>np.tile(a, k)\<close> of a 1-D array.\<close>

definition np_repeat :: "'a list \<Rightarrow> nat \<Rightarrow> 'a list" where
  "np_repeat a k = concat (map (replicate k) a)"

definition np_tile :: "'a list \<Rightarrow> nat \<Rightarrow> 'a list" where
  "np_tile a k = concat (replicate k a)"

text \<open>\<^verbatim>\<open>_cartesian_product\<close>: the transpose of the array whose two rows are given.\<close>

definition cartesian_product :: "'a list \<Rightarrow> 'a list \<Rightarrow> 'a ndarray" where
  "cartesian_product array1 array2 =
     np_transpose
       \<lparr>nrows = 2, ncols = length (np_repeat array1 (length array2)),
        rows = [np_repeat array1 (length array2), np_tile array2 (length array1)]\<rparr>"

text \<open>
  \<^verbatim>\<open>a[(idx1, idx2)]\<close> for two index arrays: the elements \<open>a[idx1[k], idx2[k]]\<close>, and
  \<^verbatim>\<open>IndexError\<close> for an index outside the array or for index arrays of two lengths.
\<close>

fun getitem_arrays :: "'a ndarray \<Rightarrow> nat list \<Rightarrow> nat list \<Rightarrow> error + 'a list" where
  "getitem_arrays a [] [] = Inr []"
| "getitem_arrays a (i # idx1) (j # idx2) =
     (case getitem a (int i) (int j) of
        Inl e \<Rightarrow> Inl e
      | Inr v \<Rightarrow>
          (case getitem_arrays a idx1 idx2 of
             Inl e \<Rightarrow> Inl e
           | Inr vs \<Rightarrow> Inr (v # vs)))"
| "getitem_arrays a _ _ = Inl IndexError"

text \<open>\<^verbatim>\<open>flat.reshape(m, n)\<close> of a 1-D array, in row-major order.\<close>

definition np_reshape :: "'a list \<Rightarrow> nat \<Rightarrow> nat \<Rightarrow> error + 'a ndarray" where
  "np_reshape flat m n =
     (if length flat \<noteq> m * n then Inl (ValueError CannotReshape)
      else Inr \<lparr>nrows = m, ncols = n, rows = map (\<lambda>p. take n (drop (p * n) flat)) [0..<m]\<rparr>)"

definition as_positional ::
  "('a, 'b) SubstitutionMatrix \<Rightarrow> 'a sequence \<Rightarrow> 'b sequence \<Rightarrow>
   error + (nat, nat) SubstitutionMatrix \<times> nat sequence \<times> nat sequence" where
  "as_positional self sequence1 sequence2 =
     (let pos_sequence1 = PositionalSequence sequence1;
          pos_sequence2 = PositionalSequence sequence2;
          idx = np_transpose (cartesian_product (code sequence1) (code sequence2))
      in case getitem_arrays (matrix self) (rows idx ! 0) (rows idx ! 1) of
           Inl e \<Rightarrow> Inl e
         | Inr flat \<Rightarrow>
             (case np_reshape flat (len sequence1) (len sequence2) of
                Inl e \<Rightarrow> Inl e
              | Inr pos_score_matrix \<Rightarrow>
                  (case init (alphabet pos_sequence1) (alphabet pos_sequence2)
                          (as_int_array pos_score_matrix) of
                     Inl e \<Rightarrow> Inl e
                   | Inr pos_matrix \<Rightarrow> Inr (pos_matrix, pos_sequence1, pos_sequence2))))"

section \<open>Strings\<close>

text \<open>
  A character is a code point below 256. The whitespace of \<^verbatim>\<open>str.strip()\<close> and
  \<^verbatim>\<open>str.split()\<close> is, in that range: tab, line feed, vertical tab, form feed, carriage
  return, the four separators \<open>0x1C\<close>--\<open>0x1F\<close>, space, \<open>0x85\<close> and \<open>0xA0\<close>.
\<close>

definition isspace :: "char \<Rightarrow> bool" where
  "isspace c =
     (let n = (of_char c :: nat)
      in (9 \<le> n \<and> n \<le> 13) \<or> (28 \<le> n \<and> n \<le> 32) \<or> n = 133 \<or> n = 160)"

text \<open>\<^verbatim>\<open>line.strip()\<close>\<close>

definition strip :: "string \<Rightarrow> string" where
  "strip s = rev (dropWhile isspace (rev (dropWhile isspace s)))"

text \<open>\<^verbatim>\<open>line.split()\<close>: the maximal runs of characters that are not whitespace.\<close>

fun split_from :: "string \<Rightarrow> string \<Rightarrow> string list" where
  "split_from cur [] = (if cur = [] then [] else [rev cur])"
| "split_from cur (c # cs) =
     (if isspace c then (if cur = [] then split_from [] cs else rev cur # split_from [] cs)
      else split_from (c # cur) cs)"

definition split :: "string \<Rightarrow> string list" where
  "split s = split_from [] s"

text \<open>\<^verbatim>\<open>string.split("\n")\<close>: the pieces between line feeds, at least one.\<close>

fun split_nl :: "string \<Rightarrow> string list" where
  "split_nl [] = [[]]"
| "split_nl (c # cs) =
     (if c = CHR 0x0A then [] # split_nl cs
      else (case split_nl cs of [] \<Rightarrow> [[c]] | l # ls \<Rightarrow> (c # l) # ls))"

text \<open>\<^verbatim>\<open>f"{s:>w}"\<close>: the string, padded with spaces on the left to the width \<open>w\<close>.\<close>

definition rjust :: "nat \<Rightarrow> string \<Rightarrow> string" where
  "rjust w s = replicate (w - length s) (CHR '' '') @ s"

text \<open>The decimal digits of a Python integer, as \<^verbatim>\<open>format\<close> with \<^verbatim>\<open>d\<close> writes them.\<close>

definition digit_char :: "nat \<Rightarrow> char" where
  "digit_char d = char_of (48 + d)"

fun str_of_nat :: "nat \<Rightarrow> string" where
  "str_of_nat n = (if n < 10 then [digit_char n] else str_of_nat (n div 10) @ [digit_char (n mod 10)])"

declare str_of_nat.simps [simp del]

definition str_of_int :: "int \<Rightarrow> string" where
  "str_of_int v = (if v < 0 then CHR ''-'' # str_of_nat (nat (- v)) else str_of_nat (nat v))"

text \<open>
  \<^verbatim>\<open>int(token)\<close> for a string without whitespace: an optional sign, then decimal digits,
  with single underscores allowed between two digits. (The interpreter's limit on the
  number of digits, 4300 unless configured, is left out.)
\<close>

definition isdigit :: "char \<Rightarrow> bool" where
  "isdigit c = (48 \<le> (of_char c :: nat) \<and> (of_char c :: nat) \<le> 57)"

definition digit_of :: "char \<Rightarrow> nat" where
  "digit_of c = of_char c - 48"

fun py_digits :: "nat \<Rightarrow> string \<Rightarrow> nat option" where
  "py_digits acc [] = Some acc"
| "py_digits acc [c] = (if isdigit c then Some (10 * acc + digit_of c) else None)"
| "py_digits acc (c # d # cs) =
     (if isdigit c then py_digits (10 * acc + digit_of c) (d # cs)
      else if c = CHR ''_'' \<and> isdigit d then py_digits (10 * acc + digit_of d) cs
      else None)"

definition py_nat :: "string \<Rightarrow> nat option" where
  "py_nat s = (case s of [] \<Rightarrow> None | c # cs \<Rightarrow> if isdigit c then py_digits (digit_of c) cs else None)"

definition py_int :: "string \<Rightarrow> int option" where
  "py_int s =
     (case s of
        [] \<Rightarrow> None
      | c # cs \<Rightarrow>
          if c = CHR ''-'' then map_option (\<lambda>n. - int n) (py_nat cs)
          else if c = CHR ''+'' then map_option int (py_nat cs)
          else map_option int (py_nat s))"

section \<open>The text format\<close>

text \<open>\<^verbatim>\<open>SubstitutionMatrix.__str__\<close>, for alphabets whose symbols are strings.\<close>

definition str_header :: "string list \<Rightarrow> string" where
  "str_header alph = '' '' @ concat (map (\<lambda>symbol. '' '' @ rjust 3 symbol) alph)"

definition str_row :: "string \<Rightarrow> 32 word list \<Rightarrow> string" where
  "str_row symbol scores =
     rjust 1 symbol @ concat (map (\<lambda>v. '' '' @ rjust 3 (str_of_int (sint v))) scores)"

definition str_sm :: "(string, string) SubstitutionMatrix \<Rightarrow> string" where
  "str_sm self =
     (let string = str_header (alph2 self) @ [CHR 0x0A] @
            concat (map (\<lambda>i. str_row (alph1 self ! i)
                               (map (\<lambda>j. item (matrix self) i j) [0..<length (alph2 self)]) @
                             [CHR 0x0A])
                        [0..<length (alph1 self)])
      in butlast string)"

text \<open>
  \<^verbatim>\<open>np.array(rows)\<close> of a list of lists of strings: a 2-D array when all the lists have
  one length, \<^verbatim>\<open>ValueError\<close> otherwise. Of no list at all it is an empty 1-D array,
  which is never indexed; it stands here as the array of shape \<open>(0, 0)\<close>.
\<close>

definition np_array :: "'a list list \<Rightarrow> error + 'a ndarray" where
  "np_array rs =
     (case rs of
        [] \<Rightarrow> Inr \<lparr>nrows = 0, ncols = 0, rows = []\<rparr>
      | r # _ \<Rightarrow>
          if list_all (\<lambda>r'. length r' = length r) rs
          then Inr \<lparr>nrows = length rs, ncols = length r, rows = rs\<rparr>
          else Inl (ValueError Inhomogeneous))"

text \<open>
  \<^verbatim>\<open>.astype(int)\<close> of an array of strings: NumPy reads every element without its
  trailing NUL characters, gives it to \<^verbatim>\<open>int()\<close>, and stores the result as a 64-bit
  integer, element by element in row-major order.
\<close>

definition int_of_token :: "string \<Rightarrow> error + int" where
  "int_of_token tok =
     (case py_int (rev (dropWhile (\<lambda>c. c = CHR 0x00) (rev tok))) of
        None \<Rightarrow> Inl (ValueError InvalidLiteral)
      | Some v \<Rightarrow>
          if - 9223372036854775808 \<le> v \<and> v \<le> 9223372036854775807 then Inr v
          else Inl OverflowError)"

fun traverse :: "('a \<Rightarrow> error + 'b) \<Rightarrow> 'a list \<Rightarrow> error + 'b list" where
  "traverse f [] = Inr []"
| "traverse f (x # xs) =
     (case f x of
        Inl e \<Rightarrow> Inl e
      | Inr y \<Rightarrow> (case traverse f xs of Inl e \<Rightarrow> Inl e | Inr ys \<Rightarrow> Inr (y # ys)))"

definition astype_int :: "string ndarray \<Rightarrow> error + int ndarray" where
  "astype_int a =
     (case traverse (traverse int_of_token) (rows a) of
        Inl e \<Rightarrow> Inl e
      | Inr rs \<Rightarrow> Inr \<lparr>nrows = nrows a, ncols = ncols a, rows = rs\<rparr>)"

text \<open>\<^verbatim>\<open>SubstitutionMatrix.dict_from_str\<close>\<close>

definition text_lines :: "string \<Rightarrow> string list" where
  "text_lines string =
     (let lines = map strip (split_nl string)
      in filter (\<lambda>line. length line \<noteq> 0 \<and> hd line \<noteq> CHR ''#'') lines)"

definition first_token :: "string \<Rightarrow> error + string" where
  "first_token line = (case split line of [] \<Rightarrow> Inl IndexError | t # _ \<Rightarrow> Inr t)"

fun dict_loop ::
  "string list \<Rightarrow> string list \<Rightarrow> int ndarray \<Rightarrow> (nat \<times> nat) list \<Rightarrow>
   (string \<times> string \<Rightarrow> int option) \<Rightarrow> error + (string \<times> string \<Rightarrow> int option)" where
  "dict_loop symbols1 symbols2 scores [] matrix_dict = Inr matrix_dict"
| "dict_loop symbols1 symbols2 scores ((i, j) # ps) matrix_dict =
     (case getitem scores (int i) (int j) of
        Inl e \<Rightarrow> Inl e
      | Inr v \<Rightarrow>
          dict_loop symbols1 symbols2 scores ps
            (matrix_dict((symbols1 ! i, symbols2 ! j) \<mapsto> v)))"

definition dict_from_str :: "string \<Rightarrow> error + (string \<times> string \<Rightarrow> int option)" where
  "dict_from_str string =
     (let lines = text_lines string
      in case traverse first_token (drop 1 lines) of
           Inl e \<Rightarrow> Inl e
         | Inr symbols1 \<Rightarrow>
             (case lines of
                [] \<Rightarrow> Inl IndexError
              | header # _ \<Rightarrow>
                  (let symbols2 = split header
                   in case np_array (map (\<lambda>line. drop 1 (split line)) (drop 1 lines)) of
                        Inl e \<Rightarrow> Inl e
                      | Inr tokens \<Rightarrow>
                          (case astype_int tokens of
                             Inl e \<Rightarrow> Inl e
                           | Inr scores \<Rightarrow>
                               dict_loop symbols1 symbols2 (np_transpose scores)
                                 (List.product [0..<length symbols1] [0..<length symbols2])
                                 Map.empty))))"

text \<open>
  The branch of the constructor for a string: the file of that name in the matrix
  database is read (\<open>None\<close> stands for a name without a file) and parsed, and the
  dictionary fills the matrix.
\<close>

definition init_from_db ::
  "string alphabet \<Rightarrow> string alphabet \<Rightarrow> string option \<Rightarrow>
   error + (string, string) SubstitutionMatrix" where
  "init_from_db alphabet1 alphabet2 file =
     (case file of
        None \<Rightarrow> Inl FileNotFoundError
      | Some string \<Rightarrow>
          (case dict_from_str string of
             Inl e \<Rightarrow> Inl e
           | Inr matrix_dict \<Rightarrow> init alphabet1 alphabet2 (Dict matrix_dict)))"

text \<open>
  A symbol that the text format can carry as one token of a line that is kept: it is
  not empty, has no whitespace, and does not start with the comment sign.
\<close>

definition plain_symbol :: "string \<Rightarrow> bool" where
  "plain_symbol s = (s \<noteq> [] \<and> list_all (\<lambda>c. \<not> isspace c) s \<and> hd s \<noteq> CHR ''#'')"

section \<open>Properties of the arrays and the alphabets\<close>

lemma item_np_transpose:
  "i < ncols a \<Longrightarrow> j < nrows a \<Longrightarrow> item (np_transpose a) i j = item a j i"
  by (simp add: np_transpose_def item_def)

lemma wf_np_transpose: "wf_ndarray (np_transpose a)"
  by (simp add: wf_ndarray_def np_transpose_def list_all_iff)

lemma nrows_np_transpose: "nrows (np_transpose a) = ncols a"
  by (simp add: np_transpose_def)

lemma ncols_np_transpose: "ncols (np_transpose a) = nrows a"
  by (simp add: np_transpose_def)

lemma astype_int32_sint: "astype_int32 (map_ndarray sint m) = m"
  by (simp add: astype_int32_def map_ndarray_def comp_def)

lemma np_any_eq_iff: "np_any_eq a v \<longleftrightarrow> (\<exists>r \<in> set (rows a). v \<in> set r)"
  by (auto simp: np_any_eq_def list_ex_iff)

lemma np_any_eq_item:
  "wf_ndarray a \<Longrightarrow> np_any_eq a v \<longleftrightarrow> (\<exists>i<nrows a. \<exists>j<ncols a. item a i j = v)"
  unfolding np_any_eq_iff wf_ndarray_def item_def list_all_iff
  by (metis in_set_conv_nth)

lemma np_any_eq_transpose:
  assumes "wf_ndarray a"
  shows "np_any_eq (np_transpose a) v = np_any_eq a v"
proof -
  have "np_any_eq (np_transpose a) v \<longleftrightarrow>
        (\<exists>i<ncols a. \<exists>j<nrows a. item (np_transpose a) i j = v)"
    using np_any_eq_item[OF wf_np_transpose, of a v]
    by (simp add: nrows_np_transpose ncols_np_transpose)
  also have "\<dots> \<longleftrightarrow> (\<exists>i<ncols a. \<exists>j<nrows a. item a j i = v)"
    by (simp add: item_np_transpose cong: conj_cong)
  also have "\<dots> \<longleftrightarrow> np_any_eq a v"
    using np_any_eq_item[OF assms, of v] by auto
  finally show ?thesis .
qed

lemma getitem_in_range:
  "i < nrows a \<Longrightarrow> j < ncols a \<Longrightarrow> getitem a (int i) (int j) = Inr (item a i j)"
  by (simp add: getitem_def norm_index_def)

lemma encode_nth:
  "distinct alph \<Longrightarrow> i < length alph \<Longrightarrow> encode alph (alph ! i) = Inr i"
proof (induction alph arbitrary: i)
  case Nil
  then show ?case by simp
next
  case (Cons x xs)
  then show ?case by (cases i) auto
qed

lemma encode_mem:
  "s \<in> set alph \<Longrightarrow> \<exists>i<length alph. encode alph s = Inr i \<and> alph ! i = s"
proof (induction alph)
  case Nil
  then show ?case by simp
next
  case (Cons x xs)
  show ?case
  proof (cases "x = s")
    case True
    then show ?thesis by auto
  next
    case False
    with Cons obtain i where "i < length xs" "encode xs s = Inr i" "xs ! i = s" by auto
    with False show ?thesis by (intro exI[of _ "Suc i"]) simp
  qed
qed

section \<open>Construction from a dense table\<close>

lemma init_IntArray:
  "shape a = (length alphabet1, length alphabet2) \<Longrightarrow>
   init alphabet1 alphabet2 (IntArray a) =
     (if np_any_eq (astype_int32 a) INT32_MAX \<or> np_any_eq (astype_int32 a) INT32_MIN
      then Inl (ValueError ScoreTooLarge)
      else Inr \<lparr>alph1 = alphabet1, alph2 = alphabet2, matrix = astype_int32 a\<rparr>)"
  by (simp add: init_def Let_def)

text \<open>
  Claim C8. Construction from an integer dense table of the shape of the two alphabets
  fails with the "score values are too large" \<^verbatim>\<open>ValueError\<close> exactly when some entry,
  after its conversion to \<^verbatim>\<open>int32\<close>, is the largest or the smallest 32-bit integer; in
  every other case it returns the matrix of the converted table.
\<close>

theorem init_dense_sentinel:
  assumes "shape a = (length alphabet1, length alphabet2)"
  shows "init alphabet1 alphabet2 (IntArray a) =
     (if np_any_eq (astype_int32 a) INT32_MAX \<or> np_any_eq (astype_int32 a) INT32_MIN
      then Inl (ValueError ScoreTooLarge)
      else Inr \<lparr>alph1 = alphabet1, alph2 = alphabet2, matrix = astype_int32 a\<rparr>)"
  using assms by (rule init_IntArray)

theorem init_dense_sentinel_witness:
  "shape \<lparr>nrows = 1, ncols = 2, rows = [[7, 2147483647 :: int]]\<rparr> = (length [''a''], length [''x'', ''y'']) \<and>
   init [''a''] [''x'', ''y''] (IntArray \<lparr>nrows = 1, ncols = 2, rows = [[7, 2147483647]]\<rparr>) =
     Inl (ValueError ScoreTooLarge) \<and>
   shape \<lparr>nrows = 1, ncols = 2, rows = [[7, - 2147483648 :: int]]\<rparr> = (length [''a''], length [''x'', ''y'']) \<and>
   init [''a''] [''x'', ''y''] (IntArray \<lparr>nrows = 1, ncols = 2, rows = [[7, - 2147483648]]\<rparr>) =
     Inl (ValueError ScoreTooLarge) \<and>
   init [''a''] [''x'', ''y''] (IntArray \<lparr>nrows = 1, ncols = 2, rows = [[7, 2147483646]]\<rparr>) =
     Inr \<lparr>alph1 = [''a''], alph2 = [''x'', ''y''],
          matrix = \<lparr>nrows = 1, ncols = 2, rows = [[7, 2147483646]]\<rparr>\<rparr>"
  using init_dense_sentinel [of "\<lparr>nrows = 1, ncols = 2, rows = [[7, 2147483647]]\<rparr>" "[''a'']" "[''x'', ''y'']"]
    init_dense_sentinel [of "\<lparr>nrows = 1, ncols = 2, rows = [[7, - 2147483648]]\<rparr>" "[''a'']" "[''x'', ''y'']"]
    init_dense_sentinel [of "\<lparr>nrows = 1, ncols = 2, rows = [[7, 2147483646]]\<rparr>" "[''a'']" "[''x'', ''y'']"]
  by (simp add: shape_def np_any_eq_def astype_int32_def map_ndarray_def INT32_MAX_def INT32_MIN_def)

section \<open>Lookup by code\<close>

text \<open>
  Claim C10. In a matrix of shape \<open>(m, n)\<close>, a negative first code \<open>i\<close> with
  \<open>-m \<le> i < 0\<close> (and a column \<open>j\<close> in range) does not fail: \<^verbatim>\<open>get_score_by_code\<close>
  returns the entry of row \<open>m + i\<close>. In the same way a negative second code \<open>j\<close> with
  \<open>-n \<le> j < 0\<close> reads column \<open>n + j\<close>.
\<close>

theorem get_score_by_code_negative:
  assumes "shape (matrix M) = (m, n)"
  shows "(- int m \<le> i \<and> i < 0 \<and> 0 \<le> j \<and> j < int n \<longrightarrow>
            get_score_by_code M i j = Inr (item (matrix M) (nat (int m + i)) (nat j))) \<and>
         (0 \<le> i \<and> i < int m \<and> - int n \<le> j \<and> j < 0 \<longrightarrow>
            get_score_by_code M i j = Inr (item (matrix M) (nat i) (nat (int n + j))))"
  using assms by (auto simp: get_score_by_code_def getitem_def norm_index_def shape_def Let_def)

theorem get_score_by_code_negative_witness:
  "shape (matrix \<lparr>alph1 = [''a'', ''b''], alph2 = [''x'', ''y'', ''z''],
                  matrix = \<lparr>nrows = 2, ncols = 3, rows = [[1, 2, 3], [4, 5, 6]]\<rparr>\<rparr>) = (2, 3) \<and>
   get_score_by_code \<lparr>alph1 = [''a'', ''b''], alph2 = [''x'', ''y'', ''z''],
                  matrix = \<lparr>nrows = 2, ncols = 3, rows = [[1, 2, 3], [4, 5, 6]]\<rparr>\<rparr> (- 1) 1 = Inr 5 \<and>
   get_score_by_code \<lparr>alph1 = [''a'', ''b''], alph2 = [''x'', ''y'', ''z''],
                  matrix = \<lparr>nrows = 2, ncols = 3, rows = [[1, 2, 3], [4, 5, 6]]\<rparr>\<rparr> 0 (- 3) = Inr 1"
  using get_score_by_code_negative [of "\<lparr>alph1 = [''a'', ''b''], alph2 = [''x'', ''y'', ''z''],
                  matrix = \<lparr>nrows = 2, ncols = 3, rows = [[1, 2, 3], [4, 5, 6]]\<rparr>\<rparr>" 2 3 "- 1" 1]
    get_score_by_code_negative [of "\<lparr>alph1 = [''a'', ''b''], alph2 = [''x'', ''y'', ''z''],
                  matrix = \<lparr>nrows = 2, ncols = 3, rows = [[1, 2, 3], [4, 5, 6]]\<rparr>\<rparr>" 2 3 0 "- 3"]
  by (simp add: shape_def item_def)

section \<open>Transposition and symmetry\<close>

text \<open>
  Claim C6. For a matrix \<open>M\<close> of the data model, \<^verbatim>\<open>transpose\<close> returns a matrix
  whenever the table of \<open>M\<close> holds neither extreme 32-bit value (the constructor it
  calls checks for them), and every matrix \<open>T\<close> it returns has the two alphabets
  of \<open>M\<close> swapped, the transposed table, and
  \<open>T.get_score(b, a) = M.get_score(a, b)\<close> for every symbol \<open>a\<close> of alphabet 1 and
  \<open>b\<close> of alphabet 2.
\<close>

theorem transpose_score:
  assumes "wf_matrix M"
  shows "(\<not> np_any_eq (matrix M) INT32_MAX \<and> \<not> np_any_eq (matrix M) INT32_MIN \<longrightarrow>
            (\<exists>T. transpose_sm M = Inr T)) \<and>
         (\<forall>T. transpose_sm M = Inr T \<longrightarrow>
            alph1 T = alph2 M \<and> alph2 T = alph1 M \<and> matrix T = np_transpose (matrix M) \<and>
            (\<forall>a \<in> set (alph1 M). \<forall>b \<in> set (alph2 M). get_score T b a = get_score M a b))"
proof -
  let ?A = "matrix M"
  from assms have wf: "wf_ndarray ?A" and sh: "nrows ?A = length (alph1 M)" "ncols ?A = length (alph2 M)"
    by (simp_all add: wf_matrix_def shape_def)
  have "shape (map_ndarray sint (np_transpose ?A)) = (length (alph2 M), length (alph1 M))"
    using sh by (simp add: shape_def map_ndarray_def nrows_np_transpose ncols_np_transpose)
  then have tr: "transpose_sm M =
      (if np_any_eq ?A INT32_MAX \<or> np_any_eq ?A INT32_MIN then Inl (ValueError ScoreTooLarge)
       else Inr \<lparr>alph1 = alph2 M, alph2 = alph1 M, matrix = np_transpose ?A\<rparr>)"
    by (simp add: transpose_sm_def as_int_array_def init_IntArray astype_int32_sint
        np_any_eq_transpose[OF wf])
  have sc: "get_score \<lparr>alph1 = alph2 M, alph2 = alph1 M, matrix = np_transpose ?A\<rparr> b a = get_score M a b"
    if "a \<in> set (alph1 M)" "b \<in> set (alph2 M)" for a b
  proof -
    from encode_mem[OF that(1)] obtain i where i: "i < length (alph1 M)" "encode (alph1 M) a = Inr i" by blast
    from encode_mem[OF that(2)] obtain j where j: "j < length (alph2 M)" "encode (alph2 M) b = Inr j" by blast
    show ?thesis using i j sh
      by (simp add: get_score_def getitem_in_range nrows_np_transpose ncols_np_transpose item_np_transpose)
  qed
  show ?thesis using tr sc by (auto split: if_splits)
qed

theorem transpose_score_witness:
  "wf_matrix \<lparr>alph1 = [''a'', ''b''], alph2 = [''x''],
              matrix = \<lparr>nrows = 2, ncols = 1, rows = [[1], [2]]\<rparr>\<rparr> \<and>
   transpose_sm \<lparr>alph1 = [''a'', ''b''], alph2 = [''x''],
              matrix = \<lparr>nrows = 2, ncols = 1, rows = [[1], [2]]\<rparr>\<rparr> =
     Inr \<lparr>alph1 = [''x''], alph2 = [''a'', ''b''],
          matrix = \<lparr>nrows = 1, ncols = 2, rows = [[1, 2]]\<rparr>\<rparr> \<and>
   get_score \<lparr>alph1 = [''x''], alph2 = [''a'', ''b''],
          matrix = \<lparr>nrows = 1, ncols = 2, rows = [[1, 2]]\<rparr>\<rparr> ''x'' ''b'' = Inr 2 \<and>
   get_score \<lparr>alph1 = [''a'', ''b''], alph2 = [''x''],
              matrix = \<lparr>nrows = 2, ncols = 1, rows = [[1], [2]]\<rparr>\<rparr> ''b'' ''x'' = Inr 2"
proof -
  let ?M = "\<lparr>alph1 = [''a'', ''b''], alph2 = [''x''],
              matrix = \<lparr>nrows = 2, ncols = 1, rows = [[1], [2]] :: 32 word list list\<rparr>\<rparr>"
  let ?T = "\<lparr>alph1 = [''x''], alph2 = [''a'', ''b''],
              matrix = \<lparr>nrows = 1, ncols = 2, rows = [[1, 2]] :: 32 word list list\<rparr>\<rparr>"
  have wf: "wf_matrix ?M"
    by (simp add: wf_matrix_def wf_ndarray_def shape_def)
  have ns: "\<not> np_any_eq (matrix ?M) INT32_MAX \<and> \<not> np_any_eq (matrix ?M) INT32_MIN"
    by (simp add: np_any_eq_def INT32_MAX_def INT32_MIN_def)
  have tr: "np_transpose (matrix ?M) = matrix ?T"
    by (simp add: np_transpose_def item_def upt_rec)
  from transpose_score [OF wf] ns obtain T where T: "transpose_sm ?M = Inr T" by blast
  with transpose_score [OF wf] have
    "alph1 T = alph2 ?M" "alph2 T = alph1 ?M" "matrix T = np_transpose (matrix ?M)"
    "get_score T ''x'' ''b'' = get_score ?M ''b'' ''x''"
    by simp_all
  moreover have "get_score ?M ''b'' ''x'' = Inr 2"
    by (simp add: get_score_def getitem_def norm_index_def item_def)
  ultimately show ?thesis using wf T tr by (cases T) simp
qed

lemma np_array_equal_iff:
  assumes "wf_ndarray a" "wf_ndarray b"
  shows "np_array_equal a b \<longleftrightarrow> a = b"
proof
  assume eq: "np_array_equal a b"
  then have sh: "nrows a = nrows b" "ncols a = ncols b"
    and it: "\<And>i j. i < nrows a \<Longrightarrow> j < ncols a \<Longrightarrow> rows a ! i ! j = rows b ! i ! j"
    by (auto simp: np_array_equal_def shape_def list_all_iff item_def)
  have "rows a = rows b"
  proof (rule nth_equalityI)
    show "length (rows a) = length (rows b)"
      using assms sh by (simp add: wf_ndarray_def)
  next
    fix i assume i: "i < length (rows a)"
    then have la: "length (rows a ! i) = ncols a" and lb: "length (rows b ! i) = ncols a"
      using assms sh by (auto simp: wf_ndarray_def list_all_iff)
    show "rows a ! i = rows b ! i"
      using la lb it[of i] i assms(1) by (intro nth_equalityI) (auto simp: wf_ndarray_def)
  qed
  with sh show "a = b" by simp
next
  assume "a = b"
  then show "np_array_equal a b"
    by (simp add: np_array_equal_def list_all_iff)
qed

text \<open>
  Claim C7. For a matrix \<open>M\<close> of the data model, \<^verbatim>\<open>is_symmetric\<close> is true if and
  only if the two alphabets are equal and the table equals its own transpose, and
  equivalently if and only if the two alphabets are equal and
  \<open>M.get_score(a, b) = M.get_score(b, a)\<close> for all symbols \<open>a\<close>, \<open>b\<close>.
\<close>

theorem is_symmetric_iff:
  assumes "wf_matrix M"
  shows "(is_symmetric M \<longleftrightarrow> alph1 M = alph2 M \<and> matrix M = np_transpose (matrix M)) \<and>
         (is_symmetric M \<longleftrightarrow> alph1 M = alph2 M \<and>
            (\<forall>a \<in> set (alph1 M). \<forall>b \<in> set (alph1 M). get_score M a b = get_score M b a))"
proof -
  let ?A = "matrix M"
  from assms have wf: "wf_ndarray ?A"
    and sh: "nrows ?A = length (alph1 M)" "ncols ?A = length (alph2 M)"
    and d: "distinct (alph1 M)"
    by (simp_all add: wf_matrix_def shape_def)
  have first: "is_symmetric M \<longleftrightarrow> alph1 M = alph2 M \<and> ?A = np_transpose ?A"
    by (simp add: is_symmetric_def np_array_equal_iff[OF wf wf_np_transpose])
  have second: "?A = np_transpose ?A \<longleftrightarrow>
      (\<forall>a \<in> set (alph1 M). \<forall>b \<in> set (alph1 M). get_score M a b = get_score M b a)"
    if eq: "alph1 M = alph2 M"
  proof -
    let ?m = "length (alph1 M)"
    have sq: "nrows ?A = ?m" "ncols ?A = ?m" using sh eq by simp_all
    have "?A = np_transpose ?A \<longleftrightarrow> np_array_equal ?A (np_transpose ?A)"
      by (simp add: np_array_equal_iff[OF wf wf_np_transpose])
    also have "\<dots> \<longleftrightarrow> (\<forall>i<?m. \<forall>j<?m. item ?A i j = item ?A j i)"
      using sq by (auto simp: np_array_equal_def shape_def list_all_iff
          nrows_np_transpose ncols_np_transpose item_np_transpose)
    also have "\<dots> \<longleftrightarrow>
      (\<forall>a \<in> set (alph1 M). \<forall>b \<in> set (alph1 M). get_score M a b = get_score M b a)"
    proof
      assume sym: "\<forall>i<?m. \<forall>j<?m. item ?A i j = item ?A j i"
      show "\<forall>a \<in> set (alph1 M). \<forall>b \<in> set (alph1 M). get_score M a b = get_score M b a"
      proof (intro ballI)
        fix a b assume "a \<in> set (alph1 M)" "b \<in> set (alph1 M)"
        then obtain i j where "i < ?m" "encode (alph1 M) a = Inr i"
          "j < ?m" "encode (alph1 M) b = Inr j"
          using encode_mem by metis
        then show "get_score M a b = get_score M b a"
          using sym sq eq[symmetric] by (simp add: get_score_def getitem_in_range)
      qed
    next
      assume sc: "\<forall>a \<in> set (alph1 M). \<forall>b \<in> set (alph1 M). get_score M a b = get_score M b a"
      show "\<forall>i<?m. \<forall>j<?m. item ?A i j = item ?A j i"
      proof (intro allI impI)
        fix i j assume ij: "i < ?m" "j < ?m"
        then have "get_score M (alph1 M ! i) (alph1 M ! j) = get_score M (alph1 M ! j) (alph1 M ! i)"
          using sc by simp
        then show "item ?A i j = item ?A j i"
          using ij sq d eq[symmetric] by (simp add: get_score_def encode_nth getitem_in_range)
      qed
    qed
    finally show ?thesis .
  qed
  show ?thesis using first second by auto
qed

theorem is_symmetric_iff_witness:
  "wf_matrix \<lparr>alph1 = [''a'', ''b''], alph2 = [''a'', ''b''],
              matrix = \<lparr>nrows = 2, ncols = 2, rows = [[1, 7], [7, 2]]\<rparr>\<rparr> \<and>
   is_symmetric \<lparr>alph1 = [''a'', ''b''], alph2 = [''a'', ''b''],
              matrix = \<lparr>nrows = 2, ncols = 2, rows = [[1, 7], [7, 2]]\<rparr>\<rparr> \<and>
   wf_matrix \<lparr>alph1 = [''a'', ''b''], alph2 = [''a'', ''b''],
              matrix = \<lparr>nrows = 2, ncols = 2, rows = [[1, 7], [8, 2]]\<rparr>\<rparr> \<and>
   \<not> is_symmetric \<lparr>alph1 = [''a'', ''b''], alph2 = [''a'', ''b''],
              matrix = \<lparr>nrows = 2, ncols = 2, rows = [[1, 7], [8, 2]]\<rparr>\<rparr>"
proof -
  let ?S = "\<lparr>alph1 = [''a'', ''b''], alph2 = [''a'', ''b''],
              matrix = \<lparr>nrows = 2, ncols = 2, rows = [[1, 7], [7, 2]] :: 32 word list list\<rparr>\<rparr>"
  let ?N = "\<lparr>alph1 = [''a'', ''b''], alph2 = [''a'', ''b''],
              matrix = \<lparr>nrows = 2, ncols = 2, rows = [[1, 7], [8, 2]] :: 32 word list list\<rparr>\<rparr>"
  have wfS: "wf_matrix ?S" and wfN: "wf_matrix ?N"
    by (simp_all add: wf_matrix_def wf_ndarray_def shape_def)
  have "matrix ?S = np_transpose (matrix ?S)"
    by (simp add: np_transpose_def item_def upt_rec)
  then have S: "is_symmetric ?S"
    using is_symmetric_iff [OF wfS] by simp
  have "matrix ?N \<noteq> np_transpose (matrix ?N)"
    by (simp add: np_transpose_def item_def upt_rec)
  then have N: "\<not> is_symmetric ?N"
    using is_symmetric_iff [OF wfN] by simp
  show ?thesis using wfS wfN S N by simp
qed

section \<open>Construction from a pairing map\<close>

lemma nrows_setitem: "nrows (setitem a i j w) = nrows a"
  and ncols_setitem: "ncols (setitem a i j w) = ncols a"
  by (simp_all add: setitem_def)

lemma wf_setitem: "wf_ndarray a \<Longrightarrow> wf_ndarray (setitem a i j w)"
proof (cases "i < length (rows a)")
  case True
  assume "wf_ndarray a"
  with True show ?thesis
    by (auto simp: wf_ndarray_def setitem_def list_all_iff dest!: set_update_subset_insert[THEN subsetD])
next
  case False
  assume "wf_ndarray a"
  with False show ?thesis
    by (simp add: wf_ndarray_def setitem_def list_update_beyond)
qed

lemma item_setitem:
  "wf_ndarray a \<Longrightarrow> i < nrows a \<Longrightarrow> j < ncols a \<Longrightarrow>
   item (setitem a i j w) i' j' = (if i' = i \<and> j' = j then w else item a i' j')"
  by (auto simp: wf_ndarray_def setitem_def item_def list_all_iff nth_list_update)

lemma fill_loop_Inr:
  assumes "fill_loop a1 a2 d ps A = Inr A'" "wf_ndarray A"
    and "\<forall>(i, j) \<in> set ps. i < nrows A \<and> j < ncols A"
  shows "wf_ndarray A' \<and> nrows A' = nrows A \<and> ncols A' = ncols A \<and>
         (\<forall>(i, j) \<in> set ps. i < length a1 \<and> j < length a2 \<and>
            (\<exists>v. d (a1 ! i, a2 ! j) = Some v \<and> - 2147483648 \<le> v \<and> v \<le> 2147483647 \<and>
                 item A' i j = word_of_int v)) \<and>
         (\<forall>i j. (i, j) \<notin> set ps \<longrightarrow> item A' i j = item A i j)"
  using assms
proof (induction ps arbitrary: A)
  case Nil
  then show ?case by simp
next
  case (Cons p ps)
  obtain i j where p: "p = (i, j)" by (cases p)
  from Cons.prems(3) p have ij: "i < nrows A" "j < ncols A" by auto
  from Cons.prems(1) p obtain v where
    i1: "i < length a1" and j2: "j < length a2" and
    v: "d (a1 ! i, a2 ! j) = Some v" and
    r: "- 2147483648 \<le> v" "v \<le> 2147483647" and
    rec: "fill_loop a1 a2 d ps (setitem A i j (word_of_int v)) = Inr A'"
    by (auto simp: decode_def int32_of_pyint_def split: if_splits option.splits)
  let ?B = "setitem A i j (word_of_int v)"
  have wfB: "wf_ndarray ?B" using Cons.prems(2) by (rule wf_setitem)
  have inB: "\<forall>(i, j) \<in> set ps. i < nrows ?B \<and> j < ncols ?B"
    using Cons.prems(3) by (auto simp: nrows_setitem ncols_setitem)
  note IH = Cons.IH[OF rec wfB inB]
  have head: "item A' i j = word_of_int v"
  proof (cases "(i, j) \<in> set ps")
    case True
    with IH v show ?thesis by auto
  next
    case False
    with IH have "item A' i j = item ?B i j" by blast
    then show ?thesis using item_setitem[OF Cons.prems(2) ij] by simp
  qed
  have other: "item A' i' j' = item A i' j'" if "(i', j') \<notin> set (p # ps)" for i' j'
  proof -
    from that p have ne: "\<not> (i' = i \<and> j' = j)" and nin: "(i', j') \<notin> set ps" by auto
    from IH nin have "item A' i' j' = item ?B i' j'" by blast
    then show ?thesis using item_setitem[OF Cons.prems(2) ij] ne by simp
  qed
  show ?case
    using IH head other i1 j2 v r p by (auto simp: nrows_setitem ncols_setitem)
qed

lemma fill_loop_total:
  assumes "\<forall>(i, j) \<in> set ps. i < length a1 \<and> j < length a2 \<and>
            (\<exists>v. d (a1 ! i, a2 ! j) = Some v \<and> - 2147483648 \<le> v \<and> v \<le> 2147483647)"
  shows "\<exists>A'. fill_loop a1 a2 d ps A = Inr A'"
  using assms
proof (induction ps arbitrary: A)
  case Nil
  then show ?case by simp
next
  case (Cons p ps)
  then show ?case
    by (cases p) (auto simp: decode_def int32_of_pyint_def)
qed

lemma fill_loop_Inl:
  assumes "fill_loop a1 a2 d ps A = Inl e"
    and "\<forall>(i, j) \<in> set ps. i < length a1 \<and> j < length a2"
  shows "e = KeyError \<or> e = OverflowError"
  using assms
proof (induction ps arbitrary: A)
  case Nil
  then show ?case by simp
next
  case (Cons p ps)
  then show ?case
    by (cases p) (auto simp: decode_def int32_of_pyint_def split: if_splits option.splits)
qed

lemma fill_loop_KeyError:
  assumes "(i, j) \<in> set ps" "d (a1 ! i, a2 ! j) = None"
    and "\<forall>(i, j) \<in> set ps. i < length a1 \<and> j < length a2 \<and>
           (\<forall>v. d (a1 ! i, a2 ! j) = Some v \<longrightarrow> - 2147483648 \<le> v \<and> v \<le> 2147483647)"
  shows "fill_loop a1 a2 d ps A = Inl KeyError"
  using assms
proof (induction ps arbitrary: A)
  case Nil
  then show ?case by simp
next
  case (Cons p ps)
  obtain i' j' where p: "p = (i', j')" by (cases p)
  show ?case
  proof (cases "d (a1 ! i', a2 ! j')")
    case None
    with Cons.prems(3) p show ?thesis by (simp add: decode_def)
  next
    case (Some v)
    with Cons.prems p have "(i, j) \<in> set ps" by auto
    with Cons.IH Cons.prems(2,3) have "fill_loop a1 a2 d ps (setitem A i' j' (word_of_int v)) = Inl KeyError"
      by simp
    with Some Cons.prems(3) p show ?thesis by (simp add: decode_def int32_of_pyint_def)
  qed
qed

lemma fill_loop_missing:
  assumes "(i, j) \<in> set ps" "d (a1 ! i, a2 ! j) = None"
  shows "\<exists>e. fill_loop a1 a2 d ps A = Inl e"
  using assms
proof (induction ps arbitrary: A)
  case Nil
  then show ?case by simp
next
  case (Cons p ps)
  obtain i' j' where p: "p = (i', j')" by (cases p)
  show ?case
  proof (cases "(i', j') = (i, j)")
    case True
    with Cons.prems(2) p show ?thesis
      by (auto simp: decode_def split: sum.splits option.splits)
  next
    case False
    with Cons.prems p have "(i, j) \<in> set ps" by auto
    with Cons.IH Cons.prems(2) have "\<And>A. \<exists>e. fill_loop a1 a2 d ps A = Inl e" by simp
    then show ?thesis using p
      by (auto split: sum.splits option.splits)
  qed
qed

lemma fill_loop_no_KeyError:
  assumes "\<forall>(i, j) \<in> set ps. i < length a1 \<and> j < length a2 \<and> d (a1 ! i, a2 ! j) \<noteq> None"
  shows "fill_loop a1 a2 d ps A \<noteq> Inl KeyError"
  using assms
proof (induction ps arbitrary: A)
  case Nil
  then show ?case by simp
next
  case (Cons p ps)
  then show ?case
    by (cases p) (auto simp: decode_def int32_of_pyint_def split: if_splits option.splits)
qed

lemma wf_np_zeros: "wf_ndarray (np_zeros m n)"
  and nrows_np_zeros: "nrows (np_zeros m n) = m"
  and ncols_np_zeros: "ncols (np_zeros m n) = n"
  by (simp_all add: wf_ndarray_def np_zeros_def list_all_iff)

lemma sint_int32:
  "- 2147483648 \<le> v \<Longrightarrow> v \<le> 2147483647 \<Longrightarrow> sint (word_of_int v :: 32 word) = v"
  by (simp add: sint_sbintrunc' signed_take_bit_int_eq_self)

lemma init_Dict:
  "init alphabet1 alphabet2 (Dict d) =
     (case fill_with_matrix_dict alphabet1 alphabet2 d of
        Inl e \<Rightarrow> Inl e
      | Inr m \<Rightarrow> Inr \<lparr>alph1 = alphabet1, alph2 = alphabet2, matrix = m\<rparr>)"
  by (simp add: init_def)

lemma fill_with_matrix_dict_total:
  assumes total: "\<forall>x \<in> set a1. \<forall>y \<in> set a2. d (x, y) \<noteq> None"
  shows "fill_with_matrix_dict a1 a2 d =
     (if \<forall>x \<in> set a1. \<forall>y \<in> set a2.
           - 2147483648 \<le> the (d (x, y)) \<and> the (d (x, y)) \<le> 2147483647
      then Inr \<lparr>nrows = length a1, ncols = length a2,
                rows = map (\<lambda>x. map (\<lambda>y. word_of_int (the (d (x, y)))) a2) a1\<rparr>
      else Inl OverflowError)"
proof -
  let ?ps = "List.product [0..<length a1] [0..<length a2]"
  let ?Z = "np_zeros (length a1) (length a2)"
  let ?T = "\<lparr>nrows = length a1, ncols = length a2,
             rows = map (\<lambda>x. map (\<lambda>y. word_of_int (the (d (x, y))) :: 32 word) a2) a1\<rparr>"
  have inZ: "\<forall>(i, j) \<in> set ?ps. i < nrows ?Z \<and> j < ncols ?Z"
    by (auto simp: nrows_np_zeros ncols_np_zeros)
  have pres: "\<forall>(i, j) \<in> set ?ps. i < length a1 \<and> j < length a2 \<and> d (a1 ! i, a2 ! j) \<noteq> None"
    using total by auto
  show ?thesis
  proof (cases "\<forall>x \<in> set a1. \<forall>y \<in> set a2.
           - 2147483648 \<le> the (d (x, y)) \<and> the (d (x, y)) \<le> 2147483647")
    case True
    have "\<forall>(i, j) \<in> set ?ps. i < length a1 \<and> j < length a2 \<and>
            (\<exists>v. d (a1 ! i, a2 ! j) = Some v \<and> - 2147483648 \<le> v \<and> v \<le> 2147483647)"
    proof (clarify, intro conjI)
      fix i j assume "(i, j) \<in> set ?ps"
      then show ij: "i < length a1" "j < length a2" by auto
      with total obtain v where v: "d (a1 ! i, a2 ! j) = Some v" by fastforce
      moreover from True ij v have "- 2147483648 \<le> v \<and> v \<le> 2147483647"
        by (metis nth_mem option.sel)
      ultimately show "\<exists>v. d (a1 ! i, a2 ! j) = Some v \<and> - 2147483648 \<le> v \<and> v \<le> 2147483647"
        by blast
    qed
    from fill_loop_total[OF this, of ?Z] obtain A' where A': "fill_loop a1 a2 d ?ps ?Z = Inr A'"
      by blast
    note F = fill_loop_Inr[OF A' wf_np_zeros inZ]
    have wfT: "wf_ndarray ?T" by (simp add: wf_ndarray_def list_all_iff)
    have "np_array_equal A' ?T"
      unfolding np_array_equal_def shape_def list_all_iff
    proof (intro conjI ballI)
      show "(nrows A', ncols A') = (nrows ?T, ncols ?T)"
        using F by (simp add: nrows_np_zeros ncols_np_zeros)
    next
      fix i j assume "i \<in> set [0..<nrows A']" "j \<in> set [0..<ncols A']"
      with F have ij: "i < length a1" "j < length a2"
        by (simp_all add: nrows_np_zeros ncols_np_zeros)
      then have "(i, j) \<in> set ?ps" by simp
      with F obtain v where "d (a1 ! i, a2 ! j) = Some v" "item A' i j = word_of_int v"
        by blast
      then show "item A' i j = item ?T i j"
        using ij by (simp add: item_def)
    qed
    with F wfT have "A' = ?T" by (simp add: np_array_equal_iff)
    with A' True show ?thesis by (simp add: fill_with_matrix_dict_def)
  next
    case False
    then obtain x y where xy: "x \<in> set a1" "y \<in> set a2"
      "\<not> (- 2147483648 \<le> the (d (x, y)) \<and> the (d (x, y)) \<le> 2147483647)" by blast
    then obtain i j where ij: "i < length a1" "a1 ! i = x" "j < length a2" "a2 ! j = y"
      by (metis in_set_conv_nth)
    then have mem: "(i, j) \<in> set ?ps" by simp
    have "fill_loop a1 a2 d ?ps ?Z = Inl OverflowError"
    proof (cases "fill_loop a1 a2 d ?ps ?Z")
      case (Inl e)
      with fill_loop_Inl[OF Inl] fill_loop_no_KeyError[OF pres, of ?Z] show ?thesis by auto
    next
      case (Inr A')
      from fill_loop_Inr[OF Inr wf_np_zeros inZ] mem ij xy(3) show ?thesis by fastforce
    qed
    with False show ?thesis by (simp add: fill_with_matrix_dict_def)
  qed
qed

lemma fill_loop_prefix:
  assumes "\<forall>(i, j) \<in> set pre. i < length a1 \<and> j < length a2 \<and>
            (\<exists>v. d (a1 ! i, a2 ! j) = Some v \<and> - 2147483648 \<le> v \<and> v \<le> 2147483647)"
  shows "\<exists>A'. fill_loop a1 a2 d (pre @ rest) A = fill_loop a1 a2 d rest A'"
  using assms
proof (induction pre arbitrary: A)
  case Nil
  then show ?case by auto
next
  case (Cons p pre)
  obtain i j where p: "p = (i, j)" by (cases p)
  with Cons.prems obtain v where v: "i < length a1" "j < length a2"
    "d (a1 ! i, a2 ! j) = Some v" "- 2147483648 \<le> v" "v \<le> 2147483647" by auto
  from Cons.prems have "\<forall>(i, j) \<in> set pre. i < length a1 \<and> j < length a2 \<and>
            (\<exists>v. d (a1 ! i, a2 ! j) = Some v \<and> - 2147483648 \<le> v \<and> v \<le> 2147483647)"
    by auto
  from Cons.IH[OF this, of "setitem A i j (word_of_int v)"] p v show ?case
    by (simp add: decode_def int32_of_pyint_def)
qed

lemma fill_loop_first_bad:
  assumes "i < length a1" "j < length a2"
  shows "fill_loop a1 a2 d ((i, j) # post) A =
     (case d (a1 ! i, a2 ! j) of
        None \<Rightarrow> Inl KeyError
      | Some v \<Rightarrow>
          if - 2147483648 \<le> v \<and> v \<le> 2147483647
          then fill_loop a1 a2 d post (setitem A i j (word_of_int v))
          else Inl OverflowError)"
  using assms by (simp add: decode_def int32_of_pyint_def split: option.splits)

lemma product_append: "List.product (xs @ ys) zs = List.product xs zs @ List.product ys zs"
  by (induction xs) simp_all

lemma upt_split: "i < m \<Longrightarrow> [0..<m] = [0..<i] @ i # [Suc i..<m]"
  using upt_add_eq_append[of 0 i "m - i"] upt_conv_Cons[of i m] by simp

lemma product_split:
  assumes "i < m" "j < n"
  shows "List.product [0..<m] [0..<n] =
     (List.product [0..<i] [0..<n] @ map (Pair i) [0..<j]) @
     (i, j) # (map (Pair i) [Suc j..<n] @ List.product [Suc i..<m] [0..<n])"
proof -
  have "List.product [0..<m] [0..<n] =
        List.product [0..<i] [0..<n] @ map (Pair i) [0..<n] @ List.product [Suc i..<m] [0..<n]"
    by (subst upt_split[OF assms(1)]) (simp add: product_append)
  also have "map (Pair i) [0..<n] = map (Pair i) [0..<j] @ (i, j) # map (Pair i) [Suc j..<n]"
    by (subst upt_split[OF assms(2)]) simp
  finally show ?thesis by simp
qed

lemma fill_first_error:
  assumes ij: "i < length a1" "j < length a2"
    and before: "\<forall>i' < length a1. \<forall>j' < length a2. i' < i \<or> (i' = i \<and> j' < j) \<longrightarrow>
       (\<exists>v. d (a1 ! i', a2 ! j') = Some v \<and> - 2147483648 \<le> v \<and> v \<le> 2147483647)"
  shows "fill_with_matrix_dict a1 a2 d =
     (case d (a1 ! i, a2 ! j) of
        None \<Rightarrow> Inl KeyError
      | Some v \<Rightarrow>
          if - 2147483648 \<le> v \<and> v \<le> 2147483647
          then fill_with_matrix_dict a1 a2 d
          else Inl OverflowError)"
proof -
  let ?pre = "List.product [0..<i] [0..<length a2] @ map (Pair i) [0..<j]"
  let ?post = "map (Pair i) [Suc j..<length a2] @ List.product [Suc i..<length a1] [0..<length a2]"
  have good: "\<forall>(i', j') \<in> set ?pre. i' < length a1 \<and> j' < length a2 \<and>
            (\<exists>v. d (a1 ! i', a2 ! j') = Some v \<and> - 2147483648 \<le> v \<and> v \<le> 2147483647)"
  proof (clarify)
    fix i' j' assume "(i', j') \<in> set ?pre"
    then have "(i' < i \<and> j' < length a2) \<or> (i' = i \<and> j' < j)" by auto
    with ij have r: "i' < length a1" "j' < length a2" "i' < i \<or> (i' = i \<and> j' < j)" by auto
    with before show "i' < length a1 \<and> j' < length a2 \<and>
            (\<exists>v. d (a1 ! i', a2 ! j') = Some v \<and> - 2147483648 \<le> v \<and> v \<le> 2147483647)"
      by blast
  qed
  from fill_loop_prefix[OF good, of "(i, j) # ?post" "np_zeros (length a1) (length a2)"]
  obtain A' where "fill_loop a1 a2 d (?pre @ (i, j) # ?post) (np_zeros (length a1) (length a2)) =
      fill_loop a1 a2 d ((i, j) # ?post) A'" by blast
  then have eq: "fill_with_matrix_dict a1 a2 d = fill_loop a1 a2 d ((i, j) # ?post) A'"
    unfolding fill_with_matrix_dict_def product_split[OF ij] .
  show ?thesis
  proof (cases "d (a1 ! i, a2 ! j)")
    case None
    with eq fill_loop_first_bad[OF ij, of d ?post A'] show ?thesis by simp
  next
    case (Some v)
    with eq fill_loop_first_bad[OF ij, of d ?post A'] show ?thesis by simp
  qed
qed

text \<open>
  Claim C4, as the code has it. When the pairing map has an entry for every pair of the
  alphabet product, construction from it stores every value strictly between the two
  32-bit extremes as that 32-bit integer, and it fails, with \<^verbatim>\<open>OverflowError\<close>,
  whenever some value lies outside the 32-bit range. (That is not the failure of the
  dense-table path, which keeps the low 32 bits of such a value. Nothing is said here
  of the two extreme values themselves, which the dense-table path rejects.)
\<close>

theorem init_dict_coercion:
  assumes "\<forall>x \<in> set alphabet1. \<forall>y \<in> set alphabet2. d (x, y) \<noteq> None"
  shows "((\<forall>x \<in> set alphabet1. \<forall>y \<in> set alphabet2.
              - 2147483648 < the (d (x, y)) \<and> the (d (x, y)) < 2147483647) \<longrightarrow>
          init alphabet1 alphabet2 (Dict d) =
            Inr \<lparr>alph1 = alphabet1, alph2 = alphabet2,
                 matrix = \<lparr>nrows = length alphabet1, ncols = length alphabet2,
                    rows = map (\<lambda>x. map (\<lambda>y. word_of_int (the (d (x, y)))) alphabet2) alphabet1\<rparr>\<rparr> \<and>
          (\<forall>x \<in> set alphabet1. \<forall>y \<in> set alphabet2.
              sint (word_of_int (the (d (x, y))) :: 32 word) = the (d (x, y)))) \<and>
         ((\<exists>x \<in> set alphabet1. \<exists>y \<in> set alphabet2.
              the (d (x, y)) < - 2147483648 \<or> 2147483647 < the (d (x, y))) \<longrightarrow>
          init alphabet1 alphabet2 (Dict d) = Inl OverflowError)"
proof -
  note eq = fill_with_matrix_dict_total[OF assms]
  have inside: "init alphabet1 alphabet2 (Dict d) =
            Inr \<lparr>alph1 = alphabet1, alph2 = alphabet2,
                 matrix = \<lparr>nrows = length alphabet1, ncols = length alphabet2,
                    rows = map (\<lambda>x. map (\<lambda>y. word_of_int (the (d (x, y)))) alphabet2) alphabet1\<rparr>\<rparr> \<and>
          (\<forall>x \<in> set alphabet1. \<forall>y \<in> set alphabet2.
              sint (word_of_int (the (d (x, y))) :: 32 word) = the (d (x, y)))"
    if s: "\<forall>x \<in> set alphabet1. \<forall>y \<in> set alphabet2.
              - 2147483648 < the (d (x, y)) \<and> the (d (x, y)) < 2147483647"
  proof -
    from s have r: "\<forall>x \<in> set alphabet1. \<forall>y \<in> set alphabet2.
              - 2147483648 \<le> the (d (x, y)) \<and> the (d (x, y)) \<le> 2147483647"
      by fastforce
    with eq have "fill_with_matrix_dict alphabet1 alphabet2 d =
        Inr \<lparr>nrows = length alphabet1, ncols = length alphabet2,
             rows = map (\<lambda>x. map (\<lambda>y. word_of_int (the (d (x, y)))) alphabet2) alphabet1\<rparr>"
      by simp
    moreover have "\<forall>x \<in> set alphabet1. \<forall>y \<in> set alphabet2.
              sint (word_of_int (the (d (x, y))) :: 32 word) = the (d (x, y))"
      using r sint_int32 by blast
    ultimately show ?thesis by (simp add: init_Dict)
  qed
  have outside: "init alphabet1 alphabet2 (Dict d) = Inl OverflowError"
    if "\<exists>x \<in> set alphabet1. \<exists>y \<in> set alphabet2.
              the (d (x, y)) < - 2147483648 \<or> 2147483647 < the (d (x, y))"
  proof -
    from that have "\<not> (\<forall>x \<in> set alphabet1. \<forall>y \<in> set alphabet2.
              - 2147483648 \<le> the (d (x, y)) \<and> the (d (x, y)) \<le> 2147483647)"
      by fastforce
    with eq show ?thesis by (simp add: init_Dict)
  qed
  show ?thesis using inside outside by blast
qed

theorem init_dict_coercion_witness:
  "init [''a''] [''x'', ''y'']
      (Dict (Map.empty((''a'', ''x'') \<mapsto> 2147483646, (''a'', ''y'') \<mapsto> - 2147483647))) =
     Inr \<lparr>alph1 = [''a''], alph2 = [''x'', ''y''],
          matrix = \<lparr>nrows = 1, ncols = 2, rows = [[2147483646, 2147483649]]\<rparr>\<rparr> \<and>
   sint (2147483649 :: 32 word) = - 2147483647 \<and>
   init [''a''] [''x'', ''y'']
      (Dict (Map.empty((''a'', ''x'') \<mapsto> 5, (''a'', ''y'') \<mapsto> 2147483648))) = Inl OverflowError"
  using init_dict_coercion [of "[''a'']" "[''x'', ''y'']"
      "Map.empty((''a'', ''x'') \<mapsto> 2147483646, (''a'', ''y'') \<mapsto> - 2147483647)"]
    init_dict_coercion [of "[''a'']" "[''x'', ''y'']"
      "Map.empty((''a'', ''x'') \<mapsto> 5, (''a'', ''y'') \<mapsto> 2147483648)"]
  by simp

text \<open>
  The claim as stated fails: the pairing map rejects \<open>2\<^sup>6\<^sup>3 + 7\<close> with
  \<^verbatim>\<open>OverflowError\<close>, where the dense-table path does not fail and stores \<open>7\<close>.
\<close>

theorem init_dict_coercion_counterexample:
  "init [''a''] [''x''] (Dict (Map.empty((''a'', ''x'') \<mapsto> 9223372036854775815))) =
     Inl OverflowError \<and>
   init [''a''] [''x''] (IntArray \<lparr>nrows = 1, ncols = 1, rows = [[9223372036854775815]]\<rparr>) =
     Inr \<lparr>alph1 = [''a''], alph2 = [''x''],
          matrix = \<lparr>nrows = 1, ncols = 1, rows = [[7]]\<rparr>\<rparr>"
  by (simp add: init_def fill_with_matrix_dict_def np_zeros_def setitem_def decode_def
      int32_of_pyint_def shape_def astype_int32_def map_ndarray_def np_any_eq_def
      INT32_MAX_def INT32_MIN_def)

text \<open>
  Claim C9, as the code has it. When the pairing map has no entry for some pair of a
  symbol of alphabet 1 and a symbol of alphabet 2, construction fails, so that no
  matrix is returned and no score defaults to zero. The error is that of the first
  pair, in the row-major order of the loops, that is missing or whose value does not
  fit in 32 bits: \<^verbatim>\<open>KeyError\<close> when that pair is missing, \<^verbatim>\<open>OverflowError\<close> when its
  value does not fit. In particular the error is \<^verbatim>\<open>KeyError\<close> when every value of the
  map fits in 32 bits.
\<close>

theorem init_dict_incomplete:
  assumes "a \<in> set alphabet1" "b \<in> set alphabet2" "d (a, b) = None"
  shows "(init alphabet1 alphabet2 (Dict d) = Inl KeyError \<or>
          init alphabet1 alphabet2 (Dict d) = Inl OverflowError) \<and>
         ((\<forall>x \<in> set alphabet1. \<forall>y \<in> set alphabet2. \<forall>v.
              d (x, y) = Some v \<longrightarrow> - 2147483648 \<le> v \<and> v \<le> 2147483647) \<longrightarrow>
          init alphabet1 alphabet2 (Dict d) = Inl KeyError) \<and>
         (\<forall>i < length alphabet1. \<forall>j < length alphabet2.
            (\<forall>i' < length alphabet1. \<forall>j' < length alphabet2.
               i' < i \<or> (i' = i \<and> j' < j) \<longrightarrow>
               (\<exists>v. d (alphabet1 ! i', alphabet2 ! j') = Some v \<and>
                    - 2147483648 \<le> v \<and> v \<le> 2147483647)) \<longrightarrow>
            (d (alphabet1 ! i, alphabet2 ! j) = None \<longrightarrow>
               init alphabet1 alphabet2 (Dict d) = Inl KeyError) \<and>
            (\<forall>v. d (alphabet1 ! i, alphabet2 ! j) = Some v \<and>
                  (v < - 2147483648 \<or> 2147483647 < v) \<longrightarrow>
               init alphabet1 alphabet2 (Dict d) = Inl OverflowError))"
proof -
  let ?ps = "List.product [0..<length alphabet1] [0..<length alphabet2]"
  let ?Z = "np_zeros (length alphabet1) (length alphabet2)"
  from assms(1,2) obtain i j where ij: "i < length alphabet1" "alphabet1 ! i = a"
    "j < length alphabet2" "alphabet2 ! j = b"
    by (metis in_set_conv_nth)
  then have mem: "(i, j) \<in> set ?ps" by simp
  have none: "d (alphabet1 ! i, alphabet2 ! j) = None" using ij assms(3) by simp
  have rng: "\<forall>(i, j) \<in> set ?ps. i < length alphabet1 \<and> j < length alphabet2" by auto
  from fill_loop_missing[of i j ?ps d alphabet1 alphabet2 ?Z, OF mem none] obtain e where
    e: "fill_loop alphabet1 alphabet2 d ?ps ?Z = Inl e" by blast
  from fill_loop_Inl[OF e rng] e have first:
    "init alphabet1 alphabet2 (Dict d) = Inl KeyError \<or>
     init alphabet1 alphabet2 (Dict d) = Inl OverflowError"
    by (auto simp: init_Dict fill_with_matrix_dict_def)
  have second: "init alphabet1 alphabet2 (Dict d) = Inl KeyError"
    if fit: "\<forall>x \<in> set alphabet1. \<forall>y \<in> set alphabet2. \<forall>v.
              d (x, y) = Some v \<longrightarrow> - 2147483648 \<le> v \<and> v \<le> 2147483647"
  proof -
    have "\<forall>(i, j) \<in> set ?ps. i < length alphabet1 \<and> j < length alphabet2 \<and>
           (\<forall>v. d (alphabet1 ! i, alphabet2 ! j) = Some v \<longrightarrow>
              - 2147483648 \<le> v \<and> v \<le> 2147483647)"
    proof (clarify)
      fix i j assume "(i, j) \<in> set ?ps"
      then have "i < length alphabet1" "j < length alphabet2" by auto
      then show "i < length alphabet1 \<and> j < length alphabet2 \<and>
           (\<forall>v. d (alphabet1 ! i, alphabet2 ! j) = Some v \<longrightarrow>
              - 2147483648 \<le> v \<and> v \<le> 2147483647)"
        using fit by (metis nth_mem)
    qed
    from fill_loop_KeyError[of i j ?ps d alphabet1 alphabet2 ?Z, OF mem none this] show ?thesis
      by (simp add: init_Dict fill_with_matrix_dict_def)
  qed
  have third: "(d (alphabet1 ! i, alphabet2 ! j) = None \<longrightarrow>
              init alphabet1 alphabet2 (Dict d) = Inl KeyError) \<and>
           (\<forall>v. d (alphabet1 ! i, alphabet2 ! j) = Some v \<and>
                 (v < - 2147483648 \<or> 2147483647 < v) \<longrightarrow>
              init alphabet1 alphabet2 (Dict d) = Inl OverflowError)"
    if "i < length alphabet1" "j < length alphabet2"
      and "\<forall>i' < length alphabet1. \<forall>j' < length alphabet2.
             i' < i \<or> (i' = i \<and> j' < j) \<longrightarrow>
             (\<exists>v. d (alphabet1 ! i', alphabet2 ! j') = Some v \<and>
                  - 2147483648 \<le> v \<and> v \<le> 2147483647)"
    for i j
    using fill_first_error[OF that] by (auto simp: init_Dict)
  show ?thesis using first second third by blast
qed

theorem init_dict_incomplete_witness:
  "''a'' \<in> set [''a'', ''b''] \<and> ''b'' \<in> set [''a'', ''b''] \<and> ''x'' \<in> set [''x''] \<and>
   (Map.empty((''b'', ''x'') \<mapsto> (9223372036854775808::int))) (''a'', ''x'') = None \<and>
   init [''a'', ''b''] [''x''] (Dict (Map.empty((''b'', ''x'') \<mapsto> 9223372036854775808))) =
     Inl KeyError \<and>
   (Map.empty((''a'', ''x'') \<mapsto> (9223372036854775808::int))) (''b'', ''x'') = None \<and>
   init [''a'', ''b''] [''x''] (Dict (Map.empty((''a'', ''x'') \<mapsto> 9223372036854775808))) =
     Inl OverflowError \<and>
   init [''a'', ''b''] [''x''] (Dict (Map.empty((''a'', ''x'') \<mapsto> 5))) = Inl KeyError"
proof -
  let ?d1 = "Map.empty((''b'', ''x'') \<mapsto> (9223372036854775808::int))"
  let ?d2 = "Map.empty((''a'', ''x'') \<mapsto> (9223372036854775808::int))"
  let ?d3 = "Map.empty((''a'', ''x'') \<mapsto> (5::int))"
  have m1: "''a'' \<in> set [''a'', ''b'']" "''x'' \<in> set [''x'']" "?d1 (''a'', ''x'') = None"
    by simp_all
  have m2: "''b'' \<in> set [''a'', ''b'']" "''x'' \<in> set [''x'']" "?d2 (''b'', ''x'') = None"
    by simp_all
  have m3: "''b'' \<in> set [''a'', ''b'']" "''x'' \<in> set [''x'']" "?d3 (''b'', ''x'') = None"
    by simp_all
  note t1 = init_dict_incomplete [of "''a''" "[''a'', ''b'']" "''x''" "[''x'']" ?d1, OF m1]
  note t2 = init_dict_incomplete [of "''b''" "[''a'', ''b'']" "''x''" "[''x'']" ?d2, OF m2]
  note t3 = init_dict_incomplete [of "''b''" "[''a'', ''b'']" "''x''" "[''x'']" ?d3, OF m3]
  have r1: "init [''a'', ''b''] [''x''] (Dict ?d1) = Inl KeyError"
    using t1 [THEN conjunct2, THEN conjunct2, rule_format, where i = 0 and j = 0] by simp
  have r2: "init [''a'', ''b''] [''x''] (Dict ?d2) = Inl OverflowError"
    using t2 [THEN conjunct2, THEN conjunct2, rule_format, where i = 0 and j = 0] by simp
  have r3: "init [''a'', ''b''] [''x''] (Dict ?d3) = Inl KeyError"
    using t3 [THEN conjunct2, THEN conjunct1] by simp
  from m1 m2 r1 r2 r3 show ?thesis by simp
qed

text \<open>
  The claim as stated fails on the kind of error: here the pair \<open>(b, x)\<close> is missing, and
  the value of the earlier pair \<open>(a, x)\<close> raises \<^verbatim>\<open>OverflowError\<close> first.
\<close>

theorem init_dict_incomplete_counterexample:
  "(Map.empty((''a'', ''x'') \<mapsto> (9223372036854775808::int))) (''b'', ''x'') = None \<and>
   init [''a'', ''b''] [''x''] (Dict (Map.empty((''a'', ''x'') \<mapsto> 9223372036854775808))) =
     Inl OverflowError \<and>
   init [''a'', ''b''] [''x''] (Dict (Map.empty((''a'', ''x'') \<mapsto> 9223372036854775808))) \<noteq>
     Inl KeyError"
  by (simp add: init_def fill_with_matrix_dict_def np_zeros_def setitem_def decode_def
      int32_of_pyint_def upt_rec)

section \<open>The positional matrix\<close>

lemma ndarray_eqI:
  assumes "wf_ndarray a" "wf_ndarray b" "nrows a = nrows b" "ncols a = ncols b"
    and "\<And>i j. i < nrows a \<Longrightarrow> j < ncols a \<Longrightarrow> item a i j = item b i j"
  shows "a = b"
proof -
  have "np_array_equal a b"
    using assms(3-5) by (simp add: np_array_equal_def shape_def list_all_iff)
  with assms(1,2) show ?thesis by (simp add: np_array_equal_iff)
qed

lemma np_transpose_involution:
  assumes "wf_ndarray a"
  shows "np_transpose (np_transpose a) = a"
proof (rule ndarray_eqI)
  show "wf_ndarray (np_transpose (np_transpose a))" by (rule wf_np_transpose)
  show "wf_ndarray a" by fact
  show "nrows (np_transpose (np_transpose a)) = nrows a"
    by (simp add: nrows_np_transpose ncols_np_transpose)
  show "ncols (np_transpose (np_transpose a)) = ncols a"
    by (simp add: nrows_np_transpose ncols_np_transpose)
next
  fix i j
  assume "i < nrows (np_transpose (np_transpose a))" "j < ncols (np_transpose (np_transpose a))"
  then have "i < nrows a" "j < ncols a"
    by (simp_all add: nrows_np_transpose ncols_np_transpose)
  then show "item (np_transpose (np_transpose a)) i j = item a i j"
    by (simp add: item_np_transpose nrows_np_transpose ncols_np_transpose)
qed

lemma length_np_repeat: "length (np_repeat a k) = length a * k"
  by (induction a) (simp_all add: np_repeat_def)

lemma length_np_tile: "length (np_tile a k) = length a * k"
  by (induction k) (simp_all add: np_tile_def)

lemma rows_cartesian_product_T:
  "rows (np_transpose (cartesian_product c1 c2)) =
     [np_repeat c1 (length c2), np_tile c2 (length c1)]"
proof -
  let ?X = "\<lparr>nrows = 2, ncols = length (np_repeat c1 (length c2)),
             rows = [np_repeat c1 (length c2), np_tile c2 (length c1)]\<rparr>"
  have "wf_ndarray ?X"
    by (simp add: wf_ndarray_def length_np_repeat length_np_tile mult.commute)
  then have "np_transpose (np_transpose ?X) = ?X" by (rule np_transpose_involution)
  then show ?thesis by (simp add: cartesian_product_def)
qed

lemma getitem_arrays_append:
  assumes "length xs = length ys"
  shows "getitem_arrays a (xs @ xs') (ys @ ys') =
     (case getitem_arrays a xs ys of
        Inl e \<Rightarrow> Inl e
      | Inr vs \<Rightarrow> (case getitem_arrays a xs' ys' of Inl e \<Rightarrow> Inl e | Inr vs' \<Rightarrow> Inr (vs @ vs')))"
  using assms
proof (induction xs ys rule: list_induct2)
  case Nil
  then show ?case by (simp split: sum.splits)
next
  case (Cons x xs y ys)
  then show ?case by (simp split: sum.splits)
qed

lemma getitem_arrays_row:
  assumes "x < nrows a" "\<forall>y \<in> set ys. y < ncols a"
  shows "getitem_arrays a (replicate (length ys) x) ys = Inr (map (item a x) ys)"
  using assms(2)
proof (induction ys)
  case Nil
  then show ?case by simp
next
  case (Cons y ys)
  then show ?case using assms(1) by (simp add: getitem_in_range)
qed

lemma getitem_arrays_product:
  assumes "\<forall>x \<in> set xs. x < nrows a" "\<forall>y \<in> set ys. y < ncols a"
  shows "getitem_arrays a (np_repeat xs (length ys)) (np_tile ys (length xs)) =
         Inr (concat (map (\<lambda>x. map (item a x) ys) xs))"
  using assms(1)
proof (induction xs)
  case Nil
  then show ?case by (simp add: np_repeat_def np_tile_def)
next
  case (Cons x xs)
  have r: "np_repeat (x # xs) (length ys) = replicate (length ys) x @ np_repeat xs (length ys)"
    by (simp add: np_repeat_def)
  have t: "np_tile ys (length (x # xs)) = ys @ np_tile ys (length xs)"
    by (simp add: np_tile_def)
  show ?case
    unfolding r t using Cons assms(2)
    by (simp add: getitem_arrays_append getitem_arrays_row)
qed

lemma take_drop_concat:
  assumes "\<forall>r \<in> set xss. length r = n" "p < length xss"
  shows "take n (drop (p * n) (concat xss)) = xss ! p"
  using assms
proof (induction xss arbitrary: p)
  case Nil
  then show ?case by simp
next
  case (Cons r xss)
  show ?case
  proof (cases p)
    case 0
    with Cons.prems show ?thesis by simp
  next
    case (Suc q)
    with Cons.prems have "take n (drop (q * n) (concat xss)) = xss ! q"
      by (intro Cons.IH) auto
    with Suc Cons.prems show ?thesis by (simp add: add.commute)
  qed
qed

lemma np_reshape_concat:
  assumes "\<forall>r \<in> set xss. length r = n"
  shows "np_reshape (concat xss) (length xss) n = Inr \<lparr>nrows = length xss, ncols = n, rows = xss\<rparr>"
proof -
  have "length (concat xss) = length xss * n"
    using assms by (induction xss) simp_all
  moreover have "map (\<lambda>p. take n (drop (p * n) (concat xss))) [0..<length xss] = xss"
    using assms by (intro nth_equalityI) (simp_all add: take_drop_concat)
  ultimately show ?thesis by (simp add: np_reshape_def)
qed

lemma as_positional_eq:
  assumes wf: "wf_matrix M"
    and c1: "\<forall>c \<in> set (code s1). c < length (alph1 M)"
    and c2: "\<forall>c \<in> set (code s2). c < length (alph2 M)"
  shows "as_positional M s1 s2 =
     (case init [0..<len s1] [0..<len s2]
             (as_int_array \<lparr>nrows = len s1, ncols = len s2,
                 rows = map (\<lambda>x. map (item (matrix M) x) (code s2)) (code s1)\<rparr>) of
        Inl e \<Rightarrow> Inl e
      | Inr pos_matrix \<Rightarrow> Inr (pos_matrix, PositionalSequence s1, PositionalSequence s2))"
proof -
  let ?A = "matrix M"
  from wf have sh: "nrows ?A = length (alph1 M)" "ncols ?A = length (alph2 M)"
    by (simp_all add: wf_matrix_def shape_def)
  have g: "getitem_arrays ?A (np_repeat (code s1) (length (code s2)))
             (np_tile (code s2) (length (code s1))) =
           Inr (concat (map (\<lambda>x. map (item ?A x) (code s2)) (code s1)))"
    using c1 c2 sh by (intro getitem_arrays_product) simp_all
  have r: "np_reshape (concat (map (\<lambda>x. map (item ?A x) (code s2)) (code s1)))
             (len s1) (len s2) =
           Inr \<lparr>nrows = len s1, ncols = len s2,
                rows = map (\<lambda>x. map (item ?A x) (code s2)) (code s1)\<rparr>"
    using np_reshape_concat[of "map (\<lambda>x. map (item ?A x) (code s2)) (code s1)" "len s2"]
    by (simp add: len_def)
  have al: "alphabet (PositionalSequence s1) = [0..<len s1]"
    "alphabet (PositionalSequence s2) = [0..<len s2]"
    by (simp_all add: PositionalSequence_def)
  show ?thesis
    unfolding as_positional_def Let_def rows_cartesian_product_T
    by (simp add: g r al)
qed

text \<open>
  Claim C3. Let \<open>M\<close> be a matrix of the data model and \<open>s1\<close>, \<open>s2\<close> sequences over its
  two alphabets (their codes are codes of those alphabets). Then \<^verbatim>\<open>as_positional\<close>
  returns whenever the table of \<open>M\<close> holds neither extreme 32-bit value (the
  constructor it calls checks for them), and for every positional matrix it returns,
  \<open>pos_matrix.get_score_by_code(p, q)\<close> is \<open>M.get_score(s1[p], s2[q])\<close> at every position
  \<open>p\<close> of \<open>s1\<close> and \<open>q\<close> of \<open>s2\<close>.
\<close>

theorem as_positional_score:
  assumes "wf_matrix M"
    and "alphabet s1 = alph1 M" "alphabet s2 = alph2 M"
    and "\<forall>c \<in> set (code s1). c < length (alph1 M)"
    and "\<forall>c \<in> set (code s2). c < length (alph2 M)"
  shows "(\<not> np_any_eq (matrix M) INT32_MAX \<and> \<not> np_any_eq (matrix M) INT32_MIN \<longrightarrow>
            (\<exists>r. as_positional M s1 s2 = Inr r)) \<and>
         (\<forall>pos_matrix pos_sequence1 pos_sequence2.
            as_positional M s1 s2 = Inr (pos_matrix, pos_sequence1, pos_sequence2) \<longrightarrow>
            (\<forall>p < len s1. \<forall>q < len s2. \<exists>a b v.
               symbol_at s1 p = Inr a \<and> symbol_at s2 q = Inr b \<and>
               get_score M a b = Inr v \<and>
               get_score_by_code pos_matrix (int p) (int q) = Inr v))"
proof -
  let ?A = "matrix M"
  let ?P = "\<lparr>nrows = len s1, ncols = len s2,
             rows = map (\<lambda>x. map (item ?A x) (code s2)) (code s1)\<rparr>"
  from assms(1) have wfA: "wf_ndarray ?A"
    and sh: "nrows ?A = length (alph1 M)" "ncols ?A = length (alph2 M)"
    and d: "distinct (alph1 M)" "distinct (alph2 M)"
    by (simp_all add: wf_matrix_def shape_def)
  have shP: "shape (map_ndarray sint ?P) = (length [0..<len s1], length [0..<len s2])"
    by (simp add: shape_def map_ndarray_def)
  have init: "init [0..<len s1] [0..<len s2] (as_int_array ?P) =
      (if np_any_eq ?P INT32_MAX \<or> np_any_eq ?P INT32_MIN then Inl (ValueError ScoreTooLarge)
       else Inr \<lparr>alph1 = [0..<len s1], alph2 = [0..<len s2], matrix = ?P\<rparr>)"
    unfolding as_int_array_def init_IntArray[OF shP] astype_int32_sint ..
  have any: "np_any_eq ?A v" if "np_any_eq ?P v" for v
  proof -
    from that obtain x y where "x \<in> set (code s1)" "y \<in> set (code s2)" "item ?A x y = v"
      by (auto simp: np_any_eq_iff)
    with assms(4,5) sh show ?thesis
      unfolding np_any_eq_item[OF wfA] by auto
  qed
  note eq = as_positional_eq[OF assms(1,4,5)]
  have total: "\<exists>r. as_positional M s1 s2 = Inr r"
    if "\<not> np_any_eq ?A INT32_MAX \<and> \<not> np_any_eq ?A INT32_MIN"
    using that any eq init by auto
  have score: "\<exists>a b v. symbol_at s1 p = Inr a \<and> symbol_at s2 q = Inr b \<and>
                 get_score M a b = Inr v \<and> get_score_by_code pos_matrix (int p) (int q) = Inr v"
    if res: "as_positional M s1 s2 = Inr (pos_matrix, pos_sequence1, pos_sequence2)"
      and p: "p < len s1" and q: "q < len s2"
    for pos_matrix pos_sequence1 pos_sequence2 p q
  proof -
    from res eq init have pm: "matrix pos_matrix = ?P"
      by (auto split: if_splits)
    from p q assms(4,5) have cp: "code s1 ! p < length (alph1 M)" and cq: "code s2 ! q < length (alph2 M)"
      by (simp_all add: len_def)
    have a: "symbol_at s1 p = Inr (alph1 M ! (code s1 ! p))"
      using p cp assms(2) by (simp add: symbol_at_def decode_def)
    have b: "symbol_at s2 q = Inr (alph2 M ! (code s2 ! q))"
      using q cq assms(3) by (simp add: symbol_at_def decode_def)
    have m: "get_score M (alph1 M ! (code s1 ! p)) (alph2 M ! (code s2 ! q)) =
             Inr (item ?A (code s1 ! p) (code s2 ! q))"
      using cp cq d sh by (simp add: get_score_def encode_nth getitem_in_range)
    have "item ?P p q = item ?A (code s1 ! p) (code s2 ! q)"
      using p q by (simp add: item_def len_def)
    then have "get_score_by_code pos_matrix (int p) (int q) =
               Inr (item ?A (code s1 ! p) (code s2 ! q))"
      using p q pm by (simp add: get_score_by_code_def getitem_in_range)
    with a b m show ?thesis by blast
  qed
  show ?thesis using total score by blast
qed

theorem as_positional_score_witness:
  "as_positional
      \<lparr>alph1 = [''a'', ''b''], alph2 = [''x'', ''y'', ''z''],
       matrix = \<lparr>nrows = 2, ncols = 3, rows = [[1, 2, 3], [4, 5, 6]]\<rparr>\<rparr>
      \<lparr>alphabet = [''a'', ''b''], code = [1, 0, 1]\<rparr>
      \<lparr>alphabet = [''x'', ''y'', ''z''], code = [2, 0]\<rparr> =
     Inr (\<lparr>alph1 = [0, 1, 2], alph2 = [0, 1],
           matrix = \<lparr>nrows = 3, ncols = 2, rows = [[6, 4], [3, 1], [6, 4]]\<rparr>\<rparr>,
          \<lparr>alphabet = [0, 1, 2], code = [0, 1, 2]\<rparr>, \<lparr>alphabet = [0, 1], code = [0, 1]\<rparr>) \<and>
   symbol_at \<lparr>alphabet = [''a'', ''b''], code = [1, 0, 1]\<rparr> 0 = Inr ''b'' \<and>
   symbol_at \<lparr>alphabet = [''x'', ''y'', ''z''], code = [2, 0]\<rparr> 1 = Inr ''x'' \<and>
   get_score \<lparr>alph1 = [''a'', ''b''], alph2 = [''x'', ''y'', ''z''],
       matrix = \<lparr>nrows = 2, ncols = 3, rows = [[1, 2, 3], [4, 5, 6]]\<rparr>\<rparr> ''b'' ''x'' = Inr 4 \<and>
   get_score_by_code \<lparr>alph1 = [0, 1, 2 :: nat], alph2 = [0, 1 :: nat],
           matrix = \<lparr>nrows = 3, ncols = 2, rows = [[6, 4], [3, 1], [6, 4]]\<rparr>\<rparr> 0 1 = Inr 4"
proof -
  let ?M = "\<lparr>alph1 = [''a'', ''b''], alph2 = [''x'', ''y'', ''z''],
       matrix = \<lparr>nrows = 2, ncols = 3, rows = [[1, 2, 3], [4, 5, 6]] :: 32 word list list\<rparr>\<rparr>"
  let ?s1 = "\<lparr>alphabet = [''a'', ''b''], code = [1, 0, 1]\<rparr>"
  let ?s2 = "\<lparr>alphabet = [''x'', ''y'', ''z''], code = [2, 0]\<rparr>"
  let ?P = "\<lparr>alph1 = [0, 1, 2 :: nat], alph2 = [0, 1 :: nat],
           matrix = \<lparr>nrows = 3, ncols = 2, rows = [[6, 4], [3, 1], [6, 4]] :: 32 word list list\<rparr>\<rparr>"
  have wf: "wf_matrix ?M"
    by (simp add: wf_matrix_def wf_ndarray_def shape_def)
  have ns: "\<not> np_any_eq (matrix ?M) INT32_MAX \<and> \<not> np_any_eq (matrix ?M) INT32_MIN"
    by (simp add: np_any_eq_def INT32_MAX_def INT32_MIN_def)
  have h: "alphabet ?s1 = alph1 ?M" "alphabet ?s2 = alph2 ?M"
    "\<forall>c \<in> set (code ?s1). c < length (alph1 ?M)" "\<forall>c \<in> set (code ?s2). c < length (alph2 ?M)"
    by simp_all
  note sc = as_positional_score [OF wf h]
  from sc ns obtain r where r: "as_positional ?M ?s1 ?s2 = Inr r" by blast
  obtain pm ps1 ps2 where rr: "r = (pm, ps1, ps2)" by (cases r)
  have l: "(0::nat) < len ?s1" "(1::nat) < len ?s2" by (simp_all add: len_def)
  from sc r rr l obtain a b v where
    abv: "symbol_at ?s1 0 = Inr a" "symbol_at ?s2 1 = Inr b" "get_score ?M a b = Inr v"
      "get_score_by_code pm (int 0) (int 1) = Inr v"
    by blast
  have ev: "as_positional ?M ?s1 ?s2 = Inr (?P, \<lparr>alphabet = [0, 1, 2], code = [0, 1, 2]\<rparr>,
      \<lparr>alphabet = [0, 1], code = [0, 1]\<rparr>)"
    by (simp add: as_positional_def PositionalSequence_def len_def cartesian_product_def
        np_transpose_def np_repeat_def np_tile_def item_def upt_rec getitem_def norm_index_def
        np_reshape_def init_def as_int_array_def shape_def map_ndarray_def astype_int32_def
        np_any_eq_def INT32_MAX_def INT32_MIN_def Let_def)
  with r rr have pm: "pm = ?P" by simp
  have a: "symbol_at ?s1 0 = Inr ''b''" and b: "symbol_at ?s2 1 = Inr ''x''"
    by (simp_all add: symbol_at_def len_def decode_def)
  have g: "get_score ?M ''b'' ''x'' = Inr 4"
    by (simp add: get_score_def getitem_def norm_index_def item_def)
  from abv a b g pm have "get_score_by_code ?P 0 1 = Inr 4" by simp
  with ev a b g show ?thesis by simp
qed

section \<open>Parsing the text format\<close>

lemma traverse_Inr:
  "traverse f xs = Inr ys \<Longrightarrow> length ys = length xs \<and> (\<forall>i<length xs. f (xs ! i) = Inr (ys ! i))"
proof (induction xs arbitrary: ys)
  case Nil
  then show ?case by simp
next
  case (Cons x xs)
  then obtain y ys' where y: "f x = Inr y" "traverse f xs = Inr ys'" "ys = y # ys'"
    by (auto split: sum.splits)
  with Cons.IH[OF y(2)] show ?case by (auto simp: nth_Cons split: nat.splits)
qed

lemma traverse_Inl: "traverse f xs = Inl e \<Longrightarrow> \<exists>x \<in> set xs. f x = Inl e"
  by (induction xs) (auto split: sum.splits)

lemma traverse_total: "\<forall>x \<in> set xs. f x = Inr (g x) \<Longrightarrow> traverse f xs = Inr (map g xs)"
  by (induction xs) auto

lemma traverse_isl: "x \<in> set xs \<Longrightarrow> isl (f x) \<Longrightarrow> isl (traverse f xs)"
  by (induction xs) (auto split: sum.splits)

lemma getitem_Inl: "getitem a i j = Inl e \<Longrightarrow> e = IndexError"
  by (auto simp: getitem_def norm_index_def Let_def split: sum.splits if_splits)

lemma getitem_out_of_range:
  "nrows a \<le> i \<or> ncols a \<le> j \<Longrightarrow> getitem a (int i) (int j) = Inl IndexError"
  by (auto simp: getitem_def norm_index_def Let_def split: sum.splits)

lemma dict_loop_Inl: "dict_loop s1 s2 sc ps d = Inl e \<Longrightarrow> e = IndexError"
proof (induction ps arbitrary: d)
  case Nil
  then show ?case by simp
next
  case (Cons p ps)
  then show ?case
    by (cases p) (auto split: sum.splits dest: getitem_Inl)
qed

lemma dict_loop_fail:
  assumes "(i, j) \<in> set ps" "getitem sc (int i) (int j) = Inl IndexError"
  shows "dict_loop s1 s2 sc ps d = Inl IndexError"
  using assms(1)
proof (induction ps arbitrary: d)
  case Nil
  then show ?case by simp
next
  case (Cons p ps)
  obtain i' j' where p: "p = (i', j')" by (cases p)
  show ?case
  proof (cases "getitem sc (int i') (int j')")
    case (Inl e)
    with getitem_Inl[OF Inl] p show ?thesis by simp
  next
    case (Inr v)
    with assms(2) p Cons.prems have "(i, j) \<in> set ps" by auto
    with Cons.IH Inr p show ?thesis by simp
  qed
qed

lemma int_of_token_Inl:
  "int_of_token t = Inl e \<Longrightarrow> e = ValueError InvalidLiteral \<or> e = OverflowError"
  by (auto simp: int_of_token_def split: option.splits if_splits)

lemma astype_int_Inl:
  "astype_int a = Inl e \<Longrightarrow> e = ValueError InvalidLiteral \<or> e = OverflowError"
  by (auto simp: astype_int_def split: sum.splits dest!: traverse_Inl int_of_token_Inl)

lemma np_array_Inl: "np_array rs = Inl e \<Longrightarrow> e = ValueError Inhomogeneous"
  by (auto simp: np_array_def split: list.splits if_splits)

lemma first_token_Inl: "first_token l = Inl e \<Longrightarrow> e = IndexError"
  by (auto simp: first_token_def split: list.splits)

lemma dict_from_str_Inl:
  assumes "dict_from_str string = Inl e"
  shows "e = IndexError \<or> e = ValueError Inhomogeneous \<or> e = ValueError InvalidLiteral \<or>
         e = OverflowError"
  using assms
  by (auto simp: dict_from_str_def Let_def split: sum.splits list.splits
      dest!: traverse_Inl first_token_Inl np_array_Inl astype_int_Inl dict_loop_Inl)

lemma np_array_Inr:
  assumes "np_array rs = Inr a" "rs \<noteq> []"
  shows "nrows a = length rs \<and> rows a = rs \<and> (\<forall>r \<in> set rs. length r = ncols a)"
  using assms by (auto simp: np_array_def list_all_iff split: list.splits if_splits)

lemma astype_int_Inr:
  assumes "astype_int a = Inr b"
  shows "nrows b = nrows a \<and> ncols b = ncols a \<and> length (rows b) = length (rows a) \<and>
         (\<forall>r \<in> set (rows a). \<forall>t \<in> set r. \<not> isl (int_of_token t))"
proof -
  from assms obtain rs where rs: "traverse (traverse int_of_token) (rows a) = Inr rs"
    and b: "b = \<lparr>nrows = nrows a, ncols = ncols a, rows = rs\<rparr>"
    by (auto simp: astype_int_def split: sum.splits)
  have "\<not> isl (int_of_token t)" if "r \<in> set (rows a)" "t \<in> set r" for r t
  proof
    assume "isl (int_of_token t)"
    with that(2) have "isl (traverse int_of_token r)" by (rule traverse_isl)
    with that(1) have "isl (traverse (traverse int_of_token) (rows a))" by (rule traverse_isl)
    with rs show False by simp
  qed
  with traverse_Inr[OF rs] b show ?thesis by auto
qed

text \<open>
  Claim C5, as the code has it. Let the text have a header line of \<open>n\<close> column symbols
  and at least one data line. Parsing fails whenever some data line has fewer than \<open>n\<close>
  score tokens after its row symbol, or two data lines differ in their number of score
  tokens, or some score token is not an integer literal that fits in 64 bits. The
  error is one of \<^verbatim>\<open>IndexError\<close>, the \<^verbatim>\<open>ValueError\<close> of \<^verbatim>\<open>np.array\<close>, the
  \<^verbatim>\<open>ValueError\<close> of \<^verbatim>\<open>int()\<close> and \<^verbatim>\<open>OverflowError\<close>; the parser has no error of
  its own for a malformed row. (Nothing is said here of data lines that all have the
  same number of extra tokens: the parser never compares that number with \<open>n\<close>.)
\<close>

theorem dict_from_str_malformed:
  assumes lines: "text_lines string = header # data"
    and l: "l \<in> set data"
    and bad: "length (drop 1 (split l)) < length (split header) \<or>
              (\<exists>l' \<in> set data. length (drop 1 (split l')) \<noteq> length (drop 1 (split l))) \<or>
              (\<exists>t \<in> set (drop 1 (split l)). isl (int_of_token t))"
  shows "\<exists>e. dict_from_str string = Inl e \<and>
           (e = IndexError \<or> e = ValueError Inhomogeneous \<or> e = ValueError InvalidLiteral \<or>
            e = OverflowError)"
proof -
  let ?rs = "map (\<lambda>line. drop 1 (split line)) data"
  let ?n = "length (split header)"
  let ?k = "length (drop 1 (split l))"
  from l have ne: "?rs \<noteq> []" by auto
  have "isl (dict_from_str string)"
  proof (cases "traverse first_token data")
    case (Inl e)
    with lines show ?thesis by (simp add: dict_from_str_def)
  next
    case s1: (Inr symbols1)
    from traverse_Inr[OF s1] have len1: "length symbols1 = length data" by simp
    show ?thesis
    proof (cases "np_array ?rs")
      case (Inl e)
      with lines s1 show ?thesis by (simp add: dict_from_str_def)
    next
      case tk: (Inr tokens)
      from np_array_Inr[OF tk ne] l have tokens: "nrows tokens = length data" "rows tokens = ?rs"
        and same: "\<forall>l' \<in> set data. length (drop 1 (split l')) = ncols tokens"
        by auto
      from same l have k: "ncols tokens = ?k" by auto
      show ?thesis
      proof (cases "astype_int tokens")
        case (Inl e)
        with lines s1 tk show ?thesis by (simp add: dict_from_str_def)
      next
        case sc: (Inr scores)
        from astype_int_Inr[OF sc] tokens k l have scores: "nrows scores = length data"
          "ncols scores = ?k"
          and valid: "\<forall>t \<in> set (drop 1 (split l)). \<not> isl (int_of_token t)"
          by auto
        from bad same k valid have few: "?k < ?n" by auto
        from l have m: "0 < length data" by (cases data) auto
        let ?T = "np_transpose scores"
        let ?ps = "List.product [0..<length symbols1] [0..<?n]"
        have "\<exists>i j. (i, j) \<in> set ?ps \<and> getitem ?T (int i) (int j) = Inl IndexError"
        proof (cases "?k < length data")
          case True
          moreover from few have "split header \<noteq> []" by auto
          ultimately have "(?k, 0) \<in> set ?ps" using len1 by simp
          moreover have "getitem ?T (int ?k) (int 0) = Inl IndexError"
            using scores by (intro getitem_out_of_range) (simp add: nrows_np_transpose)
          ultimately show ?thesis by blast
        next
          case False
          with few m len1 have "(0, length data) \<in> set ?ps" by simp
          moreover have "getitem ?T (int 0) (int (length data)) = Inl IndexError"
            using scores by (intro getitem_out_of_range) (simp add: ncols_np_transpose)
          ultimately show ?thesis by blast
        qed
        then obtain i j where "(i, j) \<in> set ?ps" "getitem ?T (int i) (int j) = Inl IndexError"
          by blast
        from dict_loop_fail[OF this] lines s1 tk sc show ?thesis
          by (simp add: dict_from_str_def)
      qed
    qed
  qed
  then obtain e where "dict_from_str string = Inl e" by (cases "dict_from_str string") auto
  with dict_from_str_Inl[OF this] show ?thesis by blast
qed

theorem dict_from_str_malformed_witness:
  "text_lines ''x y\<newline>a 1\<newline>b 3'' = [''x y'', ''a 1'', ''b 3''] \<and>
   length (drop 1 (split ''a 1'')) < length (split ''x y'') \<and>
   (case dict_from_str ''x y\<newline>a 1\<newline>b 3'' of Inl e \<Rightarrow> e = IndexError | Inr d \<Rightarrow> False) \<and>
   text_lines ''x y\<newline>a 1 2\<newline>b 3 z'' = [''x y'', ''a 1 2'', ''b 3 z''] \<and>
   isl (int_of_token ''z'') \<and>
   (case dict_from_str ''x y\<newline>a 1 2\<newline>b 3 z'' of
      Inl e \<Rightarrow> e = ValueError InvalidLiteral | Inr d \<Rightarrow> False)"
proof -
  have l1: "text_lines ''x y\<newline>a 1\<newline>b 3'' = ''x y'' # [''a 1'', ''b 3'']"
    by code_simp
  have m1: "''a 1'' \<in> set [''a 1'', ''b 3'']" by simp
  have b1: "length (drop 1 (split ''a 1'')) < length (split ''x y'')"
    by code_simp
  from dict_from_str_malformed [OF l1 m1] b1
  obtain e1 where e1: "dict_from_str ''x y\<newline>a 1\<newline>b 3'' = Inl e1" by blast
  have r1: "(case dict_from_str ''x y\<newline>a 1\<newline>b 3'' of
      Inl e \<Rightarrow> e = IndexError | Inr d \<Rightarrow> False)"
    by code_simp
  have l2: "text_lines ''x y\<newline>a 1 2\<newline>b 3 z'' = ''x y'' # [''a 1 2'', ''b 3 z'']"
    by code_simp
  have m2: "''b 3 z'' \<in> set [''a 1 2'', ''b 3 z'']" by simp
  have z: "isl (int_of_token ''z'')" by code_simp
  have t2: "drop 1 (split ''b 3 z'') = [''3'', ''z'']" by code_simp
  from dict_from_str_malformed [OF l2 m2] z t2
  obtain e2 where e2: "dict_from_str ''x y\<newline>a 1 2\<newline>b 3 z'' = Inl e2" by auto
  have r2: "(case dict_from_str ''x y\<newline>a 1 2\<newline>b 3 z'' of
      Inl e \<Rightarrow> e = ValueError InvalidLiteral | Inr d \<Rightarrow> False)"
    by code_simp
  from l1 b1 r1 l2 z r2 e1 e2 show ?thesis by simp
qed

text \<open>
  The claim as stated fails: both data lines of this text have three score tokens under
  a header of two column symbols, and the text is parsed without an error.
\<close>

theorem dict_from_str_malformed_counterexample:
  "text_lines ''x y\<newline>a 1 2 3\<newline>b 4 5 6'' = [''x y'', ''a 1 2 3'', ''b 4 5 6''] \<and>
   split ''x y'' = [''x'', ''y''] \<and>
   drop 1 (split ''a 1 2 3'') = [''1'', ''2'', ''3''] \<and>
   drop 1 (split ''b 4 5 6'') = [''4'', ''5'', ''6''] \<and>
   (case dict_from_str ''x y\<newline>a 1 2 3\<newline>b 4 5 6'' of
      Inl e \<Rightarrow> False
    | Inr d \<Rightarrow>
        map d [(''a'', ''x''), (''a'', ''y''), (''b'', ''x''), (''b'', ''y'')] =
          [Some 1, Some 4, Some 2, Some 5])"
  by code_simp

text \<open>
  Claim C2 does not hold of the code. The parser transposes the array of scores before
  it fills the dictionary, so the entry for \<open>(symbols1[i], symbols2[j])\<close> is the \<open>i\<close>-th
  score token of the \<open>j\<close>-th data line: in the first text below the entry for \<open>(a, y)\<close>
  is 3, where the text has 2. A text with two data lines and three columns is not
  parsed at all: the transposed array is indexed out of range.
\<close>

theorem dict_from_str_transposed:
  "(case dict_from_str ''    x   y\<newline>a   1   2\<newline>b   3   4'' of
      Inl e \<Rightarrow> False
    | Inr d \<Rightarrow>
        map d [(''a'', ''x''), (''a'', ''y''), (''b'', ''x''), (''b'', ''y'')] =
          [Some 1, Some 3, Some 2, Some 4]) \<and>
   (case dict_from_str ''    x   y   z\<newline>a   1   2   3\<newline>b   4   5   6'' of
      Inl e \<Rightarrow> e = IndexError
    | Inr d \<Rightarrow> False)"
  by code_simp

section \<open>Writing a matrix and reading it back\<close>

lemma split_from_Nil: "split_from cur [] = (if cur = [] then [] else [rev cur])"
  by simp

lemma split_from_spaces:
  "\<forall>c \<in> set ws. isspace c \<Longrightarrow> split_from [] (ws @ s) = split_from [] s"
  by (induction ws) auto

lemma split_from_spaces_cur:
  assumes "\<forall>c \<in> set ws. isspace c" "ws \<noteq> []" "cur \<noteq> []"
  shows "split_from cur (ws @ s) = rev cur # split_from [] s"
proof -
  from assms(2) obtain w ws' where ws: "ws = w # ws'" by (cases ws) auto
  with assms(1) have "isspace w" "\<forall>c \<in> set ws'. isspace c" by auto
  with ws assms(3) show ?thesis by (simp add: split_from_spaces)
qed

lemma split_from_token:
  "\<forall>c \<in> set tok. \<not> isspace c \<Longrightarrow> split_from cur (tok @ s) = split_from (rev tok @ cur) s"
  by (induction tok arbitrary: cur) auto

lemma split_from_pads:
  assumes "\<forall>t \<in> set ts. t \<noteq> [] \<and> (\<forall>c \<in> set t. \<not> isspace c)"
    and "\<And>t. pad t \<noteq> [] \<and> (\<forall>c \<in> set (pad t). isspace c)"
  shows "split_from cur (concat (map (\<lambda>t. pad t @ t) ts)) = (if cur = [] then ts else rev cur # ts)"
  using assms(1)
proof (induction ts arbitrary: cur)
  case Nil
  then show ?case by simp
next
  case (Cons t ts)
  let ?rest = "concat (map (\<lambda>t. pad t @ t) ts)"
  from Cons.prems have t: "t \<noteq> []" "\<forall>c \<in> set t. \<not> isspace c" by auto
  have IH: "split_from (rev t) ?rest = t # ts"
    using Cons.IH[of "rev t"] Cons.prems t by simp
  have tok: "split_from [] (t @ ?rest) = t # ts"
    using t IH by (simp add: split_from_token)
  have pad: "pad t \<noteq> []" "\<forall>c \<in> set (pad t). isspace c" using assms(2)[of t] by auto
  show ?case
  proof (cases "cur = []")
    case True
    then show ?thesis using split_from_spaces[OF pad(2), of "t @ ?rest"] tok by simp
  next
    case False
    then show ?thesis using split_from_spaces_cur[OF pad(2) pad(1) False, of "t @ ?rest"] tok by simp
  qed
qed

lemma split_from_all_spaces:
  "\<forall>c \<in> set ws. isspace c \<Longrightarrow> split_from cur ws = (if cur = [] then [] else [rev cur])"
  using split_from_spaces[of ws "[]"] split_from_spaces_cur[of ws cur "[]"]
  by (cases "ws = []") auto

lemma split_from_trailing:
  "\<forall>c \<in> set ws. isspace c \<Longrightarrow> split_from cur (s @ ws) = split_from cur s"
proof (induction s arbitrary: cur)
  case Nil
  then show ?case by (simp add: split_from_all_spaces)
next
  case (Cons c s)
  then show ?case by simp
qed

lemma split_strip: "split (strip s) = split s"
proof -
  let ?u = "dropWhile isspace s"
  have "rev ?u = takeWhile isspace (rev ?u) @ dropWhile isspace (rev ?u)" by simp
  then have "?u = rev (dropWhile isspace (rev ?u)) @ rev (takeWhile isspace (rev ?u))"
    by (metis rev_append rev_rev_ident)
  then have u: "?u = strip s @ rev (takeWhile isspace (rev ?u))"
    by (simp add: strip_def)
  have "\<forall>c \<in> set (rev (takeWhile isspace (rev ?u))). isspace c"
    by (auto dest: set_takeWhileD)
  from split_from_trailing[OF this, of "[]" "strip s"] u
  have 1: "split ?u = split (strip s)" by (simp add: split_def)
  have "s = takeWhile isspace s @ ?u" by simp
  moreover have "\<forall>c \<in> set (takeWhile isspace s). isspace c" by (auto dest: set_takeWhileD)
  ultimately have "split s = split ?u"
    using split_from_spaces[of "takeWhile isspace s" ?u] by (simp add: split_def)
  with 1 show ?thesis by simp
qed

lemma split_from_cur_hd:
  "cur \<noteq> [] \<Longrightarrow> split_from cur s \<noteq> [] \<and> hd (hd (split_from cur s)) = last cur"
proof (induction s arbitrary: cur)
  case Nil
  then show ?case by (simp add: hd_rev)
next
  case (Cons c s)
  then show ?case by (auto simp: hd_rev)
qed

lemma split_from_no_token: "split_from [] s \<noteq> [] \<Longrightarrow> \<exists>c \<in> set s. \<not> isspace c"
  by (induction s) (auto split: if_splits)

lemma strip_hd:
  assumes "split s = t # ts"
  shows "strip s \<noteq> [] \<and> hd (strip s) = hd t"
proof -
  let ?u = "dropWhile isspace s"
  from assms have "\<exists>c \<in> set s. \<not> isspace c"
    using split_from_no_token[of s] by (simp add: split_def)
  then have ne: "?u \<noteq> []" by (simp add: dropWhile_eq_Nil_conv)
  then obtain c u' where u: "?u = c # u'" by (cases ?u) auto
  then have c: "\<not> isspace c" using hd_dropWhile[OF ne] by simp
  have "dropWhile isspace (rev u' @ [c]) =
        (if \<forall>x \<in> set (rev u'). isspace x then [c] else dropWhile isspace (rev u') @ [c])"
    using c by (simp add: dropWhile_append)
  then obtain zs where "dropWhile isspace (rev ?u) = zs @ [c]"
    using u by (cases "\<forall>x \<in> set (rev u'). isspace x") auto
  then have st: "strip s = c # rev zs" by (simp add: strip_def)
  have "s = takeWhile isspace s @ ?u" by simp
  moreover have "\<forall>c \<in> set (takeWhile isspace s). isspace c" by (auto dest: set_takeWhileD)
  ultimately have "split s = split_from [] ?u"
    using split_from_spaces[of "takeWhile isspace s" ?u] by (simp add: split_def)
  then have "t # ts = split_from [c] u'" using u c assms by simp
  then have "hd (hd (split_from [c] u')) = hd t" by (metis list.sel(1))
  then have "hd t = c"
    using split_from_cur_hd[of "[c]" u'] by simp
  with st show ?thesis by simp
qed

lemma split_nl_nonempty: "split_nl s \<noteq> []"
  by (induction s) (auto split: list.splits)

lemma split_nl_single: "CHR 0x0A \<notin> set l \<Longrightarrow> split_nl l = [l]"
  by (induction l) auto

lemma split_nl_line: "CHR 0x0A \<notin> set l \<Longrightarrow> split_nl (l @ CHR 0x0A # s) = l # split_nl s"
  by (induction l) auto

lemma split_nl_join:
  assumes "CHR 0x0A \<notin> set l0" "\<forall>l \<in> set ls. CHR 0x0A \<notin> set l"
  shows "split_nl (l0 @ concat (map (\<lambda>l. CHR 0x0A # l) ls)) = l0 # ls"
  using assms
proof (induction ls arbitrary: l0)
  case Nil
  then show ?case by (simp add: split_nl_single)
next
  case (Cons l ls)
  then show ?case by (simp add: split_nl_line)
qed

lemma concat_shift:
  "c # concat (map (\<lambda>x. f x @ [c]) xs) = concat (map (\<lambda>x. c # f x) xs) @ [c]"
  by (induction xs) auto

lemma digit_of_digit_char: "d < 10 \<Longrightarrow> digit_of (digit_char d) = d"
  by (simp add: digit_of_def digit_char_def)

lemma isdigit_digit_char: "d < 10 \<Longrightarrow> isdigit (digit_char d)"
  by (simp add: isdigit_def digit_char_def)

lemma str_of_nat_digits: "\<forall>c \<in> set (str_of_nat n). isdigit c"
proof (induction n rule: str_of_nat.induct)
  case (1 n)
  show ?case
  proof (cases "n < 10")
    case True
    then show ?thesis by (subst str_of_nat.simps) (simp add: isdigit_digit_char)
  next
    case False
    with 1 show ?thesis
      by (subst str_of_nat.simps) (auto simp: isdigit_digit_char)
  qed
qed

lemma str_of_nat_nonempty: "str_of_nat n \<noteq> []"
  by (subst str_of_nat.simps) simp

lemma py_digits_foldl:
  "\<forall>c \<in> set ds. isdigit c \<Longrightarrow>
   py_digits acc ds = Some (foldl (\<lambda>a c. 10 * a + digit_of c) acc ds)"
  by (induction acc ds rule: py_digits.induct) auto

lemma foldl_str_of_nat: "foldl (\<lambda>a c. 10 * a + digit_of c) 0 (str_of_nat n) = n"
proof (induction n rule: str_of_nat.induct)
  case (1 n)
  show ?case
  proof (cases "n < 10")
    case True
    then show ?thesis by (subst str_of_nat.simps) (simp add: digit_of_digit_char)
  next
    case False
    with 1 have "foldl (\<lambda>a c. 10 * a + digit_of c) 0 (str_of_nat (n div 10)) = n div 10" by simp
    with False show ?thesis
      by (subst str_of_nat.simps) (simp add: digit_of_digit_char)
  qed
qed

lemma py_nat_str_of_nat: "py_nat (str_of_nat n) = Some n"
proof -
  obtain c cs where s: "str_of_nat n = c # cs"
    using str_of_nat_nonempty[of n] by (cases "str_of_nat n") auto
  with str_of_nat_digits[of n] have d: "isdigit c" "\<forall>c \<in> set cs. isdigit c" by auto
  have "foldl (\<lambda>a c. 10 * a + digit_of c) 0 (c # cs) = n"
    using foldl_str_of_nat[of n] s by simp
  then show ?thesis using s d by (simp add: py_nat_def py_digits_foldl)
qed

lemma isdigit_not_sign: "isdigit c \<Longrightarrow> c \<noteq> CHR ''-'' \<and> c \<noteq> CHR ''+''"
  by (auto simp: isdigit_def)

lemma isdigit_not_space: "isdigit c \<Longrightarrow> \<not> isspace c"
  by (auto simp: isdigit_def isspace_def Let_def)

lemma isdigit_not_nul: "isdigit c \<Longrightarrow> c \<noteq> CHR 0x00"
  by (auto simp: isdigit_def)

lemma py_int_str_of_int: "py_int (str_of_int v) = Some v"
proof (cases "v < 0")
  case True
  then show ?thesis by (simp add: str_of_int_def py_int_def py_nat_str_of_nat)
next
  case False
  obtain c cs where s: "str_of_nat (nat v) = c # cs"
    using str_of_nat_nonempty[of "nat v"] by (cases "str_of_nat (nat v)") auto
  with str_of_nat_digits[of "nat v"] have "isdigit c" by auto
  then have "c \<noteq> CHR ''-''" "c \<noteq> CHR ''+''" using isdigit_not_sign by auto
  with False s py_nat_str_of_nat[of "nat v"] show ?thesis
    by (simp add: str_of_int_def py_int_def)
qed

lemma str_of_int_chars:
  "str_of_int v \<noteq> [] \<and> (\<forall>c \<in> set (str_of_int v). \<not> isspace c \<and> c \<noteq> CHR 0x00)"
proof -
  have "\<not> isspace CHR ''-''" by (simp add: isspace_def)
  then show ?thesis
    using str_of_nat_digits isdigit_not_space isdigit_not_nul
    by (auto simp: str_of_int_def str_of_nat_nonempty)
qed

lemma int_of_token_str_of_int:
  assumes "- 9223372036854775808 \<le> v" "v \<le> 9223372036854775807"
  shows "int_of_token (str_of_int v) = Inr v"
proof -
  let ?t = "str_of_int v"
  have "dropWhile (\<lambda>c. c = CHR 0x00) (rev ?t) = rev ?t"
    using str_of_int_chars[of v] by (cases "rev ?t") auto
  then show ?thesis using assms by (simp add: int_of_token_def py_int_str_of_int)
qed

lemma isspace_space: "isspace CHR '' ''" and isspace_nl: "isspace CHR 0x0A"
  by (simp_all add: isspace_def)

lemma pad_spaces:
  "'' '' @ replicate k CHR '' '' \<noteq> [] \<and> (\<forall>c \<in> set ('' '' @ replicate k CHR '' ''). isspace c)"
  by (auto simp: isspace_space)

lemma padded_token: "'' '' @ rjust 3 t = ('' '' @ replicate (3 - length t) CHR '' '') @ t"
  by (simp add: rjust_def)

lemma split_str_header:
  assumes "\<forall>s \<in> set alph. s \<noteq> [] \<and> (\<forall>c \<in> set s. \<not> isspace c)"
  shows "split (str_header alph) = alph"
proof -
  have "str_header alph =
        '' '' @ concat (map (\<lambda>t. ('' '' @ replicate (3 - length t) CHR '' '') @ t) alph)"
    unfolding str_header_def padded_token ..
  moreover have "split_from []
      (concat (map (\<lambda>t. ('' '' @ replicate (3 - length t) CHR '' '') @ t) alph)) = alph"
    using split_from_pads[OF assms, of "\<lambda>t. '' '' @ replicate (3 - length t) CHR '' ''" "[]"]
      pad_spaces by simp
  ultimately show ?thesis
    using split_from_spaces[of "'' ''"] by (simp add: split_def isspace_space)
qed

lemma nl_str_header:
  assumes "\<forall>s \<in> set alph. \<forall>c \<in> set s. \<not> isspace c"
  shows "CHR 0x0A \<notin> set (str_header alph)"
  using assms isspace_nl by (auto simp: str_header_def rjust_def)

lemma split_str_row:
  assumes "symbol \<noteq> []" "\<forall>c \<in> set symbol. \<not> isspace c"
  shows "split (str_row symbol scores) = symbol # map (\<lambda>v. str_of_int (sint v)) scores"
proof -
  let ?ts = "map (\<lambda>v. str_of_int (sint v)) scores"
  let ?pad = "\<lambda>t. '' '' @ replicate (3 - length t) CHR '' ''"
  have r: "rjust 1 symbol = symbol"
    using assms(1) by (cases symbol) (simp_all add: rjust_def)
  have "concat (map (\<lambda>v. '' '' @ rjust 3 (str_of_int (sint v))) scores) =
        concat (map (\<lambda>t. ?pad t @ t) ?ts)"
    unfolding padded_token by (simp add: comp_def)
  then have row: "str_row symbol scores = symbol @ concat (map (\<lambda>t. ?pad t @ t) ?ts)"
    unfolding str_row_def r by simp
  have toks: "\<forall>t \<in> set ?ts. t \<noteq> [] \<and> (\<forall>c \<in> set t. \<not> isspace c)"
    using str_of_int_chars by auto
  have "split_from (rev symbol) (concat (map (\<lambda>t. ?pad t @ t) ?ts)) = symbol # ?ts"
    using split_from_pads[OF toks, of ?pad "rev symbol"] pad_spaces assms(1) by simp
  then show ?thesis
    using assms(2) by (simp add: split_def row split_from_token)
qed

lemma nl_str_row:
  assumes "\<forall>c \<in> set symbol. \<not> isspace c"
  shows "CHR 0x0A \<notin> set (str_row symbol scores)"
proof -
  have "CHR 0x0A \<notin> set (str_of_int v)" for v
    using str_of_int_chars[of v] isspace_nl by auto
  then show ?thesis
    using assms isspace_nl by (auto simp: str_row_def rjust_def)
qed

lemma str_sm_lines:
  "str_sm self =
     str_header (alph2 self) @
     concat (map (\<lambda>l. CHR 0x0A # l)
       (map (\<lambda>i. str_row (alph1 self ! i)
                    (map (\<lambda>j. item (matrix self) i j) [0..<length (alph2 self)]))
            [0..<length (alph1 self)]))"
proof -
  let ?R = "\<lambda>i. str_row (alph1 self ! i)
                    (map (\<lambda>j. item (matrix self) i j) [0..<length (alph2 self)])"
  let ?is = "[0..<length (alph1 self)]"
  have "[CHR 0x0A] @ concat (map (\<lambda>i. ?R i @ [CHR 0x0A]) ?is) =
        concat (map (\<lambda>i. CHR 0x0A # ?R i) ?is) @ [CHR 0x0A]"
    using concat_shift[of "CHR 0x0A" ?R ?is] by simp
  then have "str_sm self =
      butlast ((str_header (alph2 self) @ concat (map (\<lambda>i. CHR 0x0A # ?R i) ?is)) @ [CHR 0x0A])"
    by (simp add: str_sm_def Let_def)
  then show ?thesis by (simp only: butlast_snoc map_map comp_def)
qed

lemma text_lines_keep:
  assumes "CHR 0x0A \<notin> set l0" "\<forall>l \<in> set ls. CHR 0x0A \<notin> set l"
    and "\<forall>l \<in> set (l0 # ls). \<exists>t ts. split l = t # ts \<and> hd t \<noteq> CHR ''#''"
  shows "text_lines (l0 @ concat (map (\<lambda>l. CHR 0x0A # l) ls)) = map strip (l0 # ls)"
proof -
  have "\<forall>l \<in> set (l0 # ls). strip l \<noteq> [] \<and> hd (strip l) \<noteq> CHR ''#''"
    using assms(3) strip_hd by metis
  then have "filter (\<lambda>line. length line \<noteq> 0 \<and> hd line \<noteq> CHR ''#'') (map strip (l0 # ls)) =
             map strip (l0 # ls)"
    by (intro filter_True) auto
  then show ?thesis
    by (simp add: text_lines_def Let_def split_nl_join[OF assms(1,2)])
qed

lemma traverse_map:
  "\<forall>x \<in> set xs. f (h x) = Inr (k x) \<Longrightarrow> traverse f (map h xs) = Inr (map k xs)"
  by (induction xs) auto

lemma np_array_uniform:
  assumes "rs \<noteq> []" "\<forall>r \<in> set rs. length r = k"
  shows "np_array rs = Inr \<lparr>nrows = length rs, ncols = k, rows = rs\<rparr>"
  using assms by (cases rs) (auto simp: np_array_def list_all_iff)

lemma int_of_token_sint: "int_of_token (str_of_int (sint (w :: 32 word))) = Inr (sint w)"
proof -
  have "- (2 ^ 31) \<le> sint w" "sint w < 2 ^ 31"
    using sint_ge[of w] sint_lt[of w] by simp_all
  then show ?thesis by (intro int_of_token_str_of_int) simp_all
qed

lemma dict_loop_Inr:
  assumes "\<forall>(i, j) \<in> set ps. i < nrows sc \<and> j < ncols sc"
    and "\<forall>(i, j) \<in> set ps. \<forall>(i', j') \<in> set ps.
           (s1 ! i, s2 ! j) = (s1 ! i', s2 ! j') \<longrightarrow> (i, j) = (i', j')"
  shows "\<exists>d'. dict_loop s1 s2 sc ps d = Inr d' \<and>
           (\<forall>(i, j) \<in> set ps. d' (s1 ! i, s2 ! j) = Some (item sc i j)) \<and>
           (\<forall>k. k \<notin> (\<lambda>(i, j). (s1 ! i, s2 ! j)) ` set ps \<longrightarrow> d' k = d k)"
  using assms
proof (induction ps arbitrary: d)
  case Nil
  then show ?case by simp
next
  case (Cons p ps)
  obtain i j where p: "p = (i, j)" by (cases p)
  let ?key = "\<lambda>(i, j). (s1 ! i, s2 ! j)"
  let ?d1 = "d((s1 ! i, s2 ! j) \<mapsto> item sc i j)"
  from Cons.prems(1) p have ij: "i < nrows sc" "j < ncols sc" by auto
  have step: "dict_loop s1 s2 sc (p # ps) d = dict_loop s1 s2 sc ps ?d1"
    using p ij by (simp add: getitem_in_range)
  have "\<forall>(i, j) \<in> set ps. i < nrows sc \<and> j < ncols sc" using Cons.prems(1) by auto
  moreover have "\<forall>(i, j) \<in> set ps. \<forall>(i', j') \<in> set ps.
           (s1 ! i, s2 ! j) = (s1 ! i', s2 ! j') \<longrightarrow> (i, j) = (i', j')"
    using Cons.prems(2) by auto
  ultimately obtain d' where d': "dict_loop s1 s2 sc ps ?d1 = Inr d'"
    and in_ps: "\<forall>(i, j) \<in> set ps. d' (s1 ! i, s2 ! j) = Some (item sc i j)"
    and out_ps: "\<forall>k. k \<notin> ?key ` set ps \<longrightarrow> d' k = ?d1 k"
    using Cons.IH[of ?d1] by blast
  have head: "d' (s1 ! i, s2 ! j) = Some (item sc i j)"
  proof (cases "(s1 ! i, s2 ! j) \<in> ?key ` set ps")
    case True
    then obtain i' j' where "(i', j') \<in> set ps" "(s1 ! i, s2 ! j) = (s1 ! i', s2 ! j')" by auto
    moreover from this Cons.prems(2) p have "(i, j) = (i', j')" by fastforce
    ultimately show ?thesis using in_ps by auto
  next
    case False
    with out_ps show ?thesis by simp
  qed
  have rest: "d' k = d k" if "k \<notin> ?key ` set (p # ps)" for k
  proof -
    from that p have "k \<noteq> (s1 ! i, s2 ! j)" "k \<notin> ?key ` set ps" by auto
    with out_ps show ?thesis by (cases k) auto
  qed
  show ?case
    using step d' in_ps head rest p by auto
qed

lemma plain_symbolD:
  "plain_symbol s \<Longrightarrow> s \<noteq> [] \<and> (\<forall>c \<in> set s. \<not> isspace c) \<and> hd s \<noteq> CHR ''#''"
  by (simp add: plain_symbol_def list_all_iff)

lemma parse_str_sm:
  assumes wf: "wf_matrix M"
    and p1: "list_all plain_symbol (alph1 M)" and p2: "list_all plain_symbol (alph2 M)"
    and sq: "length (alph1 M) = length (alph2 M)" and ne: "alph2 M \<noteq> []"
  shows "\<exists>d. dict_from_str (str_sm M) = Inr d \<and>
           (\<forall>i < length (alph1 M). \<forall>j < length (alph2 M).
              d (alph1 M ! i, alph2 M ! j) = Some (sint (item (matrix M) j i)))"
proof -
  let ?a1 = "alph1 M" and ?a2 = "alph2 M" and ?A = "matrix M"
  let ?m = "length ?a1" and ?n = "length ?a2"
  let ?row = "\<lambda>i. map (\<lambda>j. item ?A i j) [0..<?n]"
  let ?R = "\<lambda>i. str_row (?a1 ! i) (?row i)"
  let ?H = "str_header ?a2"
  let ?tok = "\<lambda>v :: 32 word. str_of_int (sint v)"
  from wf have d1: "distinct ?a1" and d2: "distinct ?a2" by (simp_all add: wf_matrix_def)
  have s1: "?a1 ! i \<noteq> []" "\<forall>c \<in> set (?a1 ! i). \<not> isspace c" "hd (?a1 ! i) \<noteq> CHR ''#''"
    if "i < ?m" for i
    using p1 that plain_symbolD[of "?a1 ! i"] by (simp_all add: list_all_iff)
  have s2: "\<forall>s \<in> set ?a2. s \<noteq> [] \<and> (\<forall>c \<in> set s. \<not> isspace c)"
    using p2 plain_symbolD by (auto simp: list_all_iff)
  have splitH: "split ?H = ?a2" using s2 by (rule split_str_header)
  have splitR: "split (?R i) = ?a1 ! i # map ?tok (?row i)" if "i < ?m" for i
    using s1[OF that] by (intro split_str_row)
  have "hd ?a2 \<in> set ?a2" using ne by simp
  then have hdH: "hd (hd ?a2) \<noteq> CHR ''#''"
    using p2 plain_symbolD by (auto simp: list_all_iff)
  have lines: "text_lines (str_sm M) = strip ?H # map (\<lambda>i. strip (?R i)) [0..<?m]"
  proof -
    have "CHR 0x0A \<notin> set ?H" using s2 by (intro nl_str_header) auto
    moreover have "\<forall>l \<in> set (map ?R [0..<?m]). CHR 0x0A \<notin> set l"
      using s1 nl_str_row by auto
    moreover have "\<forall>l \<in> set (?H # map ?R [0..<?m]). \<exists>t ts. split l = t # ts \<and> hd t \<noteq> CHR ''#''"
    proof
      fix l assume "l \<in> set (?H # map ?R [0..<?m])"
      then consider "l = ?H" | i where "i < ?m" "l = ?R i" by auto
      then show "\<exists>t ts. split l = t # ts \<and> hd t \<noteq> CHR ''#''"
      proof cases
        case 1
        with splitH ne hdH show ?thesis by (cases ?a2) auto
      next
        case 2
        with splitR[of i] s1(3)[of i] show ?thesis by simp
      qed
    qed
    ultimately have "text_lines (?H @ concat (map (\<lambda>l. CHR 0x0A # l) (map ?R [0..<?m]))) =
        map strip (?H # map ?R [0..<?m])"
      by (rule text_lines_keep)
    then show ?thesis by (simp add: str_sm_lines comp_def)
  qed
  have first: "traverse first_token (map (\<lambda>i. strip (?R i)) [0..<?m]) = Inr ?a1"
  proof -
    have "\<forall>i \<in> set [0..<?m]. first_token (strip (?R i)) = Inr (?a1 ! i)"
      using splitR by (simp add: first_token_def split_strip)
    then have "traverse first_token (map (\<lambda>i. strip (?R i)) [0..<?m]) =
               Inr (map (\<lambda>i. ?a1 ! i) [0..<?m])"
      by (rule traverse_map)
    then show ?thesis by (simp add: map_nth)
  qed
  let ?rs = "map (\<lambda>i. map ?tok (?row i)) [0..<?m]"
  have data: "map (\<lambda>line. drop 1 (split line)) (map (\<lambda>i. strip (?R i)) [0..<?m]) = ?rs"
    using splitR by (simp add: split_strip)
  from sq ne have m: "0 < ?m" by simp
  have arr: "np_array ?rs = Inr \<lparr>nrows = ?m, ncols = ?n, rows = ?rs\<rparr>"
  proof -
    have "?rs \<noteq> []" using m by simp
    moreover have "\<forall>r \<in> set ?rs. length r = ?n"
    proof
      fix r assume "r \<in> set ?rs"
      then obtain i where "r = map ?tok (?row i)" by (auto simp only: set_map)
      then show "length r = ?n" by simp
    qed
    ultimately have "np_array ?rs = Inr \<lparr>nrows = length ?rs, ncols = ?n, rows = ?rs\<rparr>"
      by (rule np_array_uniform)
    moreover have "length ?rs = ?m" by simp
    ultimately show ?thesis by (simp only:)
  qed
  let ?S = "\<lparr>nrows = ?m, ncols = ?n,
              rows = map (\<lambda>i. map (\<lambda>v. sint v) (?row i)) [0..<?m]\<rparr>"
  have ints: "astype_int \<lparr>nrows = ?m, ncols = ?n, rows = ?rs\<rparr> = Inr ?S"
  proof -
    have inner: "traverse int_of_token (map ?tok r) = Inr (map sint r)" for r :: "32 word list"
      using traverse_map[of r int_of_token ?tok sint] by (simp add: int_of_token_sint)
    have "traverse (traverse int_of_token) (map (\<lambda>i. map ?tok (?row i)) [0..<?m]) =
               Inr (map (\<lambda>i. map sint (?row i)) [0..<?m])"
      using traverse_map[of "[0..<?m]" "traverse int_of_token" "\<lambda>i. map ?tok (?row i)"
          "\<lambda>i. map sint (?row i)"] inner by blast
    then show ?thesis by (simp add: astype_int_def)
  qed
  let ?T = "np_transpose ?S"
  let ?ps = "List.product [0..<?m] [0..<?n]"
  have rng: "\<forall>(i, j) \<in> set ?ps. i < nrows ?T \<and> j < ncols ?T"
    using sq by (auto simp: nrows_np_transpose ncols_np_transpose)
  have inj: "\<forall>(i, j) \<in> set ?ps. \<forall>(i', j') \<in> set ?ps.
           (?a1 ! i, ?a2 ! j) = (?a1 ! i', ?a2 ! j') \<longrightarrow> (i, j) = (i', j')"
    using d1 d2 by (auto simp: nth_eq_iff_index_eq)
  from dict_loop_Inr[OF rng inj, of Map.empty] obtain d where
    d: "dict_loop ?a1 ?a2 ?T ?ps Map.empty = Inr d"
    and vals: "\<forall>(i, j) \<in> set ?ps. d (?a1 ! i, ?a2 ! j) = Some (item ?T i j)"
    by blast
  have res: "dict_from_str (str_sm M) = Inr d"
  proof -
    have dr1: "drop 1 (x # xs) = xs" for x :: string and xs by simp
    show ?thesis
      unfolding dict_from_str_def Let_def lines
      by (simp only: dr1 first sum.case list.case split_strip splitH data arr ints d)
  qed
  have "d (?a1 ! i, ?a2 ! j) = Some (sint (item ?A j i))" if "i < ?m" "j < ?n" for i j
  proof -
    from that have "(i, j) \<in> set ?ps" by simp
    with vals have "d (?a1 ! i, ?a2 ! j) = Some (item ?T i j)" by blast
    moreover have "item ?T i j = item ?S j i"
      using that sq by (intro item_np_transpose) simp_all
    moreover have "item ?S j i = sint (item ?A j i)"
      using that sq by (simp add: item_def)
    ultimately show ?thesis by simp
  qed
  with res show ?thesis by blast
qed

text \<open>
  Claim C1, as the code has it. Let \<open>M\<close> be a matrix of the data model over alphabets
  of strings, where every symbol is not empty, has no whitespace and does not start
  with \<open>#\<close>, alphabet 2 is not empty, and the table equals its own transpose. Then the
  text that \<^verbatim>\<open>__str__\<close> writes for \<open>M\<close> is parsed by \<^verbatim>\<open>dict_from_str\<close>, and the matrix
  constructed from the parsed dictionary with the two alphabets of \<open>M\<close> is \<open>M\<close>.
  (Nothing is said here of a table that differs from its transpose: there the round
  trip meets the transposition in the parser, see claim C2.)
\<close>

theorem str_roundtrip:
  assumes wf: "wf_matrix M"
    and p1: "list_all plain_symbol (alph1 M)" and p2: "list_all plain_symbol (alph2 M)"
    and ne: "alph2 M \<noteq> []"
    and symm: "matrix M = np_transpose (matrix M)"
  shows "\<exists>d. dict_from_str (str_sm M) = Inr d \<and> init (alph1 M) (alph2 M) (Dict d) = Inr M"
proof -
  let ?a1 = "alph1 M" and ?a2 = "alph2 M" and ?A = "matrix M"
  let ?m = "length ?a1" and ?n = "length ?a2"
  from wf have wfA: "wf_ndarray ?A" and sh: "nrows ?A = ?m" "ncols ?A = ?n"
    by (simp_all add: wf_matrix_def shape_def)
  from symm have "nrows ?A = nrows (np_transpose ?A)" by simp
  with sh have sq: "?m = ?n" by (simp add: nrows_np_transpose)
  have sy: "item ?A j i = item ?A i j" if "i < ?m" "j < ?n" for i j
  proof -
    have "item (np_transpose ?A) i j = item ?A j i"
      using that sh sq by (intro item_np_transpose) simp_all
    with symm show ?thesis by simp
  qed
  from parse_str_sm[OF wf p1 p2 sq ne] obtain d where
    d: "dict_from_str (str_sm M) = Inr d"
    and vals: "\<forall>i < ?m. \<forall>j < ?n. d (?a1 ! i, ?a2 ! j) = Some (sint (item ?A j i))"
    by blast
  have val: "d (?a1 ! i, ?a2 ! j) = Some (sint (item ?A i j))" if "i < ?m" "j < ?n" for i j
    using vals sy that by simp
  have val': "\<exists>w :: 32 word. d (x, y) = Some (sint w)" if "x \<in> set ?a1" "y \<in> set ?a2" for x y
    using that val by (metis in_set_conv_nth)
  have total: "\<forall>x \<in> set ?a1. \<forall>y \<in> set ?a2. d (x, y) \<noteq> None"
    using val' by fastforce
  have fit: "\<forall>x \<in> set ?a1. \<forall>y \<in> set ?a2.
      - 2147483648 \<le> the (d (x, y)) \<and> the (d (x, y)) \<le> 2147483647"
  proof (intro ballI)
    fix x y assume "x \<in> set ?a1" "y \<in> set ?a2"
    then obtain w :: "32 word" where "d (x, y) = Some (sint w)" using val' by blast
    moreover have "- (2 ^ 31) \<le> sint w" "sint w < 2 ^ 31"
      using sint_ge[of w] sint_lt[of w] by simp_all
    ultimately show "- 2147483648 \<le> the (d (x, y)) \<and> the (d (x, y)) \<le> 2147483647" by simp
  qed
  let ?B = "\<lparr>nrows = ?m, ncols = ?n,
             rows = map (\<lambda>x. map (\<lambda>y. word_of_int (the (d (x, y))) :: 32 word) ?a2) ?a1\<rparr>"
  have fill: "fill_with_matrix_dict ?a1 ?a2 d = Inr ?B"
    using fill_with_matrix_dict_total[OF total] fit by simp
  have "?B = ?A"
  proof (rule ndarray_eqI)
    show "wf_ndarray ?B" by (simp add: wf_ndarray_def list_all_iff)
    show "wf_ndarray ?A" by fact
    show "nrows ?B = nrows ?A" "ncols ?B = ncols ?A" using sh by simp_all
  next
    fix i j assume "i < nrows ?B" "j < ncols ?B"
    then have ij: "i < ?m" "j < ?n" by simp_all
    then have "item ?B i j = word_of_int (the (d (?a1 ! i, ?a2 ! j)))"
      by (simp add: item_def)
    also have "\<dots> = item ?A i j" using val[OF ij] by simp
    finally show "item ?B i j = item ?A i j" .
  qed
  with fill have "init ?a1 ?a2 (Dict d) = Inr \<lparr>alph1 = ?a1, alph2 = ?a2, matrix = ?A\<rparr>"
    by (simp add: init_Dict)
  then have "init ?a1 ?a2 (Dict d) = Inr M" by simp
  with d show ?thesis by blast
qed

theorem str_roundtrip_witness:
  "wf_matrix \<lparr>alph1 = [''a'', ''b''], alph2 = [''a'', ''b''],
              matrix = \<lparr>nrows = 2, ncols = 2, rows = [[1, 7], [7, - 2]]\<rparr>\<rparr> \<and>
   str_sm \<lparr>alph1 = [''a'', ''b''], alph2 = [''a'', ''b''],
              matrix = \<lparr>nrows = 2, ncols = 2, rows = [[1, 7], [7, - 2]]\<rparr>\<rparr> =
     ''    a   b\<newline>a   1   7\<newline>b   7  -2'' \<and>
   (case dict_from_str ''    a   b\<newline>a   1   7\<newline>b   7  -2'' of
      Inl e \<Rightarrow> False
    | Inr d \<Rightarrow>
        init [''a'', ''b''] [''a'', ''b''] (Dict d) =
          Inr \<lparr>alph1 = [''a'', ''b''], alph2 = [''a'', ''b''],
               matrix = \<lparr>nrows = 2, ncols = 2, rows = [[1, 7], [7, - 2]]\<rparr>\<rparr>)"
proof -
  let ?M = "\<lparr>alph1 = [''a'', ''b''], alph2 = [''a'', ''b''],
              matrix = \<lparr>nrows = 2, ncols = 2, rows = [[1, 7], [7, - 2]] :: 32 word list list\<rparr>\<rparr>"
  have wf: "wf_matrix ?M"
    by (simp add: wf_matrix_def wf_ndarray_def shape_def)
  have p: "list_all plain_symbol (alph1 ?M)" "list_all plain_symbol (alph2 ?M)"
    by (simp_all add: plain_symbol_def isspace_def)
  have ne: "alph2 ?M \<noteq> []" by simp
  have symm: "matrix ?M = np_transpose (matrix ?M)"
    by (simp add: np_transpose_def item_def upt_rec)
  have s: "str_sm ?M = ''    a   b\<newline>a   1   7\<newline>b   7  -2''"
    by code_simp
  from str_roundtrip [OF wf p ne symm] obtain d where
    "dict_from_str (str_sm ?M) = Inr d" "init (alph1 ?M) (alph2 ?M) (Dict d) = Inr ?M"
    by blast
  with wf s show ?thesis by simp
qed

text \<open>
  The claim as stated fails for symbols that the text format cannot carry. A symbol
  with a blank is read as two tokens, so that the second half of the row symbol is
  taken for a score; a line that starts with the symbol \<open>#\<close> is dropped as a comment,
  here the header and the only row, so that no header is left.
\<close>

theorem str_roundtrip_counterexample:
  "init [''a b''] [''a b''] (Dict (Map.empty((''a b'', ''a b'') \<mapsto> 1))) =
     Inr \<lparr>alph1 = [''a b''], alph2 = [''a b''],
          matrix = \<lparr>nrows = 1, ncols = 1, rows = [[1]]\<rparr>\<rparr> \<and>
   str_sm \<lparr>alph1 = [''a b''], alph2 = [''a b''],
           matrix = \<lparr>nrows = 1, ncols = 1, rows = [[1]]\<rparr>\<rparr> = ''  a b\<newline>a b   1'' \<and>
   (case dict_from_str ''  a b\<newline>a b   1'' of
      Inl e \<Rightarrow> e = ValueError InvalidLiteral | Inr d \<Rightarrow> False) \<and>
   init [''#''] [''#''] (Dict (Map.empty((''#'', ''#'') \<mapsto> 1))) =
     Inr \<lparr>alph1 = [''#''], alph2 = [''#''],
          matrix = \<lparr>nrows = 1, ncols = 1, rows = [[1]]\<rparr>\<rparr> \<and>
   str_sm \<lparr>alph1 = [''#''], alph2 = [''#''],
           matrix = \<lparr>nrows = 1, ncols = 1, rows = [[1]]\<rparr>\<rparr> = ''    #\<newline>#   1'' \<and>
   (case dict_from_str ''    #\<newline>#   1'' of
      Inl e \<Rightarrow> e = IndexError | Inr d \<Rightarrow> False)"
  by code_simp

end
